theory Spec2Isabelle
  imports Main "HOL-Library.Word"
begin

unbundle bit_operations_syntax

section \<open>Machine types of Client.cpp\<close>

text \<open>
  \<^verbatim>\<open>unsigned\<close> is a 32-bit word, \<^verbatim>\<open>uint64_t\<close> a 64-bit word, \<^verbatim>\<open>u256\<close> and
  \<^verbatim>\<open>h256\<close> 256-bit words (\<^verbatim>\<open>u256\<close> is an unchecked fixed-width integer: its
  arithmetic wraps), \<^verbatim>\<open>Address\<close> a 160-bit word.
\<close>

type_synonym u32 = "32 word"
type_synonym u64 = "64 word"
type_synonym u256 = "256 word"
type_synonym h256 = "256 word"
type_synonym Address = "160 word"
type_synonym bytes = "8 word list"

text \<open>
  What C++ leaves undefined or raises is a value of the model: every function that can
  divide by zero, index out of range or throw returns \<open>fault + 'a\<close>.
\<close>

datatype fault = DivisionByZero | OutOfRange | Thrown

section \<open>Miners and \<^verbatim>\<open>Client::hashrate\<close>\<close>

text \<open>
  \<^verbatim>\<open>MineProgress\<close> (declared outside these sources): the two counters \<^verbatim>\<open>hashrate\<close>
  reads, both \<^verbatim>\<open>unsigned\<close>. A miner as the orchestrator sees it: its progress, whether it has sealed a block, the
  block it sealed, and how often \<^verbatim>\<open>noteStateChange\<close> was called on it.
\<close>

record MineProgress =
  hashes :: u32
  ms :: u32

record Miner =
  miningProgress :: MineProgress
  isComplete :: bool
  blockData :: bytes
  stateChanges :: nat

text \<open>
  \<^verbatim>\<open>
  uint64_t ret = 0;
  for (LocalMiner const& m: m_localMiners)
      ret += m.miningProgress().hashes / m.miningProgress().ms;
  return ret / 1000;
  \<close>
  The division is the \<^verbatim>\<open>unsigned\<close> one and has no guard in the source: with a zero
  divisor the C++ is undefined (the process traps), which the model returns as
  \<open>Inl DivisionByZero\<close>. The quotient is widened to 64 bits and added with wrap-around.
\<close>

fun hashrate_loop :: "u64 \<Rightarrow> Miner list \<Rightarrow> fault + u64" where
  "hashrate_loop ret [] = Inr ret"
| "hashrate_loop ret (m # rest) =
     (if ms (miningProgress m) = 0 then Inl DivisionByZero
      else hashrate_loop
             (ret + ucast (hashes (miningProgress m) div ms (miningProgress m))) rest)"

definition hashrate :: "Miner list \<Rightarrow> fault + u64" where
  "hashrate m_localMiners =
     (case hashrate_loop 0 m_localMiners of
        Inl e \<Rightarrow> Inl e
      | Inr ret \<Rightarrow> Inr (ret div 1000))"

text \<open>
  Modelled from the spec: a default-constructed miner (its class is not part of these
  sources) has done no work: both progress counters are 0 and it holds no sealed block.
\<close>

definition freshMiner :: Miner where
  "freshMiner =
     \<lparr>miningProgress = \<lparr>hashes = 0, ms = 0\<rparr>, isComplete = False, blockData = [],
      stateChanges = 0\<rparr>"

text \<open>
  \<^verbatim>\<open>setMiningThreads\<close>: \<^verbatim>\<open>t = _threads ? _threads : hardware_concurrency()\<close>, clamped to
  1 under turbo mining when that is compiled in; then \<^verbatim>\<open>m_localMiners.resize(t)\<close> on the
  cleared vector, which default-constructs \<open>t\<close> miners.
\<close>

definition setMiningThreads :: "u32 \<Rightarrow> bool \<Rightarrow> u32 \<Rightarrow> Miner list" where
  "setMiningThreads hardware_concurrency turbo threads =
     (let t = (if threads \<noteq> 0 then threads else hardware_concurrency);
          t = (if turbo then 1 else t)
      in replicate (unat t) freshMiner)"

section \<open>VersionChecker\<close>

datatype WithExisting = Trust | Verify | Kill

text \<open>
  Modelled from the spec: the RLP codec, which is not part of these sources. The status
  file holds an RLP-encoded list \<open>[protocolVersion, minorProtocolVersion, databaseVersion]\<close>;
  a file's bytes are identified with the item they decode to. An item is the null item
  (what empty bytes decode to), an integer, or a list of items. \<^verbatim>\<open>status[i]\<close> is the
  \<open>i\<close>-th item of a list and the null item otherwise; the conversion \<^verbatim>\<open>(unsigned)item\<close>
  throws unless the item is an integer that fits 32 bits.
\<close>

datatype RLP = RLPNull | RLPInt nat | RLPList "RLP list"

definition rlp_at :: "RLP \<Rightarrow> nat \<Rightarrow> RLP" where
  "rlp_at r i =
     (case r of RLPList xs \<Rightarrow> (if i < length xs then xs ! i else RLPNull) | _ \<Rightarrow> RLPNull)"

definition toUnsigned :: "RLP \<Rightarrow> fault + u32" where
  "toUnsigned r =
     (case r of
        RLPInt n \<Rightarrow> (if n < 2 ^ 32 then Inr (of_nat n) else Inl Thrown)
      | _ \<Rightarrow> Inl Thrown)"

definition rlpList :: "u32 \<Rightarrow> u32 \<Rightarrow> u32 \<Rightarrow> RLP" where
  "rlpList a b c = RLPList [RLPInt (unat a), RLPInt (unat b), RLPInt (unat c)]"

text \<open>
  The compiled-in constants \<^verbatim>\<open>eth::c_protocolVersion\<close>, \<^verbatim>\<open>eth::c_minorProtocolVersion\<close>
  and \<^verbatim>\<open>c_databaseVersion\<close> are declared outside these sources: they are parameters.
\<close>

record Constants =
  c_protocolVersion :: u32
  c_minorProtocolVersion :: u32
  c_databaseVersion :: u32

text \<open>
  Modelled from the spec: the file system and the operations on it, none of which is part
  of these sources. The file system as \<^verbatim>\<open>VersionChecker\<close> uses it: the directories that
  exist, the files with their contents, the paths the process is denied (a directory it
  is not able to create, a file it is not able to open for writing, as in a directory that
  exists but is not writable), and the log of the paths \<^verbatim>\<open>writeFile\<close> has written.
  \<^verbatim>\<open>contents\<close> of a missing file is empty. \<^verbatim>\<open>boost::filesystem::create_directory\<close> does
  nothing for a directory that exists and throws when it cannot create one; \<^verbatim>\<open>writeFile\<close>
  opens the file for writing, which needs the file's directory and the permission to
  write the file, and silently writes nothing when it cannot.
\<close>

record filesystem =
  directories :: "string set"
  files :: "string \<rightharpoonup> RLP"
  denied :: "string set"
  written :: "string list"

definition contents :: "filesystem \<Rightarrow> string \<Rightarrow> RLP" where
  "contents fs p = (case files fs p of None \<Rightarrow> RLPNull | Some r \<Rightarrow> r)"

definition create_directory :: "string \<Rightarrow> filesystem \<Rightarrow> fault + filesystem" where
  "create_directory p fs =
     (if p \<in> directories fs then Inr fs
      else if p \<in> denied fs then Inl Thrown
      else Inr (fs\<lparr>directories := insert p (directories fs)\<rparr>))"

definition parent_path :: "string \<Rightarrow> string" where
  "parent_path f = rev (tl (dropWhile (\<lambda>c. c \<noteq> CHR ''/'') (rev f)))"

definition writeFile :: "string \<Rightarrow> RLP \<Rightarrow> filesystem \<Rightarrow> filesystem" where
  "writeFile f d fs =
     (if parent_path f \<in> directories fs \<and> f \<notin> denied fs
      then fs\<lparr>files := (files fs)(f \<mapsto> d), written := written fs @ [f]\<rparr>
      else fs)"

record VersionChecker =
  m_path :: string
  m_action :: WithExisting

text \<open>
  \<^verbatim>\<open>
  VersionChecker::VersionChecker(string const& _dbPath):
      m_path(_dbPath.size() ? _dbPath : Defaults::dbPath())
  {
      bytes statusBytes = contents(m_path + "/status");
      RLP status(statusBytes);
      try
      {
          auto protocolVersion = (unsigned)status[0];
          auto minorProtocolVersion = (unsigned)status[1];
          auto databaseVersion = (unsigned)status[2];
          m_action =
              protocolVersion != eth::c_protocolVersion || databaseVersion != c_databaseVersion ?
                  WithExisting::Kill
              : minorProtocolVersion != eth::c_minorProtocolVersion ?
                  WithExisting::Verify
              :
                  WithExisting::Trust;
      }
      catch (...)
      {
          m_action = WithExisting::Kill;
      }
  }
  \<close>
\<close>

definition VersionChecker_ctor ::
  "Constants \<Rightarrow> string \<Rightarrow> filesystem \<Rightarrow> string \<Rightarrow> VersionChecker" where
  "VersionChecker_ctor K Defaults_dbPath fs dbPath =
     (let path = (if dbPath \<noteq> [] then dbPath else Defaults_dbPath);
          status = contents fs (path @ ''/status'')
      in \<lparr>m_path = path,
          m_action =
            (case toUnsigned (rlp_at status 0) of
               Inl _ \<Rightarrow> Kill
             | Inr protocolVersion \<Rightarrow>
            (case toUnsigned (rlp_at status 1) of
               Inl _ \<Rightarrow> Kill
             | Inr minorProtocolVersion \<Rightarrow>
            (case toUnsigned (rlp_at status 2) of
               Inl _ \<Rightarrow> Kill
             | Inr databaseVersion \<Rightarrow>
                 if protocolVersion \<noteq> c_protocolVersion K
                    \<or> databaseVersion \<noteq> c_databaseVersion K
                 then Kill
                 else if minorProtocolVersion \<noteq> c_minorProtocolVersion K
                 then Verify
                 else Trust)))\<rparr>)"

text \<open>
  \<^verbatim>\<open>
  void VersionChecker::setOk()
  {
      if (m_action != WithExisting::Trust)
      {
          try { boost::filesystem::create_directory(m_path); }
          catch (...) { cwarn << "Unhandled exception! Failed to create directory: " ...; }
          writeFile(m_path + "/status",
              rlpList(eth::c_protocolVersion, eth::c_minorProtocolVersion, c_databaseVersion));
      }
  }
  \<close>
\<close>

definition setOk :: "Constants \<Rightarrow> VersionChecker \<Rightarrow> filesystem \<Rightarrow> filesystem" where
  "setOk K vc fs =
     (if m_action vc \<noteq> Trust
      then
        let fs1 = (case create_directory (m_path vc) fs of Inl _ \<Rightarrow> fs | Inr fs' \<Rightarrow> fs')
        in writeFile (m_path vc @ ''/status'')
             (rlpList (c_protocolVersion K) (c_minorProtocolVersion K) (c_databaseVersion K)) fs1
      else fs)"

text \<open>
  What the \<^verbatim>\<open>Client\<close> constructors do with the version checker: \<^verbatim>\<open>m_vc(_dbPath)\<close>
  first and, once the chain and the state database are open, \<^verbatim>\<open>m_vc.setOk()\<close>.
\<close>

definition startup ::
  "Constants \<Rightarrow> string \<Rightarrow> filesystem \<Rightarrow> string \<Rightarrow> VersionChecker \<times> filesystem" where
  "startup K Defaults_dbPath fs dbPath =
     (let m_vc = VersionChecker_ctor K Defaults_dbPath fs dbPath
      in (m_vc, setOk K m_vc fs))"

text \<open>The \<open>i\<close>-th field of the status record under a data directory, as the checker reads it.\<close>

abbreviation statusField :: "filesystem \<Rightarrow> string \<Rightarrow> nat \<Rightarrow> fault + u32" where
  "statusField fs path i \<equiv> toUnsigned (rlp_at (contents fs (path @ ''/status'')) i)"

text \<open>Example data: constants, and a data directory \<open>db\<close> holding a given status record.\<close>

definition K0 :: Constants where
  "K0 = \<lparr>c_protocolVersion = 56, c_minorProtocolVersion = 1, c_databaseVersion = 9\<rparr>"

definition fs0 :: "RLP option \<Rightarrow> filesystem" where
  "fs0 status =
     \<lparr>directories = {''db''}, files = (\<lambda>f. if f = ''db/status'' then status else None),
      denied = {}, written = []\<rparr>"

section \<open>The data of the orchestrator\<close>

text \<open>
  The collaborators of \<^verbatim>\<open>Client\<close> (chain store, state, transaction queue, filters,
  executive) are declared outside these sources. Their data is modelled as far as
  \<^verbatim>\<open>Client.cpp\<close> reads it; their behaviour is a parameter wherever \<^verbatim>\<open>Client.cpp\<close> only
  calls it. Log entries \<open>'l\<close> and filters \<open>'f\<close> are opaque to the orchestrator.
\<close>

type_synonym time_point = "64 word"
type_synonym LogBloom = "2048 word"

record Transaction =
  gasPrice :: u256
  sha3 :: h256

record 'l TransactionReceipt =
  gasUsed :: u256
  bloom :: LogBloom
  log :: "'l list"

record BlockInfo =
  hash :: h256
  parentHash :: h256
  number :: u256
  gasLimit :: u256
  transactionsRoot :: h256
  logBloom :: LogBloom

text \<open>
  The chain store as a table of what its queries answer: \<^verbatim>\<open>currentHash()\<close>,
  \<^verbatim>\<open>number()\<close>, \<^verbatim>\<open>info(h)\<close>, \<^verbatim>\<open>transactions(h)\<close> (each transaction identified with its
  RLP), \<^verbatim>\<open>transactionHashes(h)\<close> and \<^verbatim>\<open>receipts(h)\<close>.
\<close>

record 'l BlockChain =
  currentHash :: h256
  bc_number :: u32
  info :: "h256 \<Rightarrow> BlockInfo"
  transactions :: "h256 \<Rightarrow> Transaction list"
  transactionHashes :: "h256 \<Rightarrow> h256 list"
  receipts :: "h256 \<Rightarrow> 'l TransactionReceipt list"

text \<open>
  The state: the balances, the pending transactions (\<^verbatim>\<open>pending()\<close>) and the mining
  beneficiary (\<^verbatim>\<open>address()\<close>).
\<close>

record State =
  balance :: "Address \<Rightarrow> u256"
  pending :: "Transaction list"
  address :: Address

text \<open>
  Modelled from the spec: \<^verbatim>\<open>State::addBalance(addr, amount)\<close>, which is not part of these
  sources, credits \<open>amount\<close> to the balance of \<open>addr\<close> (in \<^verbatim>\<open>u256\<close> arithmetic) and
  changes nothing else.
\<close>

definition addBalance :: "Address \<Rightarrow> u256 \<Rightarrow> State \<Rightarrow> State" where
  "addBalance a amount s = s\<lparr>balance := (balance s)(a := balance s a + amount)\<rparr>"

text \<open>
  The transaction queue \<^verbatim>\<open>m_tq\<close> is known to \<^verbatim>\<open>Client.cpp\<close> by the calls made on it:
  the model keeps the sequence of these calls, oldest first.
\<close>

datatype TQCall = Import Transaction | Drop h256 | Clear | NoteGood h256

type_synonym TransactionQueue = "TQCall list"

datatype RelativeBlock = Latest | Pending

record 'l LocalisedLogEntry =
  entry :: 'l
  lle_number :: u32
  transactionHash :: h256

record ('f, 'l) InstalledFilter =
  filter_f :: 'f
  refCount :: u32
  changes :: "'l LocalisedLogEntry list"

record 'l ClientWatch =
  id_w :: h256
  changes_w :: "'l LocalisedLogEntry list"
  lastPoll :: time_point

datatype HostCall = NoteNewTransactions | NoteNewBlocks

text \<open>
  The members of \<^verbatim>\<open>Client\<close>. \<^verbatim>\<open>m_filters\<close> and \<^verbatim>\<open>m_watches\<close> are \<^verbatim>\<open>std::map\<close>s: lists
  of key and value in iteration order. The host is a weak pointer: \<open>None\<close> when it cannot
  be locked, otherwise the calls made on it.
\<close>

record ('f, 'l) Client =
  m_bc :: "'l BlockChain"
  m_tq :: TransactionQueue
  m_preMine :: State
  m_postMine :: State
  m_localMiners :: "Miner list"
  m_remoteMiner :: Miner
  m_filters :: "(h256 \<times> ('f, 'l) InstalledFilter) list"
  m_watches :: "(u32 \<times> 'l ClientWatch) list"
  m_lastGarbageCollection :: time_point
  m_host :: "HostCall list option"

section \<open>\<^verbatim>\<open>Client::call\<close>\<close>

text \<open>
  The executive is a parameter: how \<^verbatim>\<open>Executive e(temp, LastHashes(), 0)\<close>, \<^verbatim>\<open>e.call\<close>,
  \<^verbatim>\<open>e.go\<close> and \<^verbatim>\<open>e.executionResult\<close> answer, each of which may throw, and the
  default-constructed \<^verbatim>\<open>ExecutionResult\<close>. The executive works on the state it was
  constructed on, by reference.
\<close>

record ('e, 'x) Executive =
  ExecutionResult_ctor :: 'x
  Executive_ctor :: "State \<Rightarrow> fault + 'e"
  e_call :: "'e \<Rightarrow> Address \<Rightarrow> Address \<Rightarrow> Address \<Rightarrow> u256 \<Rightarrow> u256 \<Rightarrow> bytes \<Rightarrow> u256 \<Rightarrow> Address
             \<Rightarrow> fault + bool \<times> 'e"
  e_go :: "'e \<Rightarrow> fault + 'e"
  e_executionResult :: "'e \<Rightarrow> fault + 'x"

text \<open>
  \<^verbatim>\<open>
  ExecutionResult ret;
  try
  {
      State temp;
      {
          ReadGuard l(x_stateDB);
          temp = m_postMine;
          temp.addBalance(_from, _value + _gasPrice * _gas);
      }
      Executive e(temp, LastHashes(), 0);
      if (!e.call(_dest, _dest, _from, _value, _gasPrice, &_data, _gas, _from))
          e.go();
      ret = e.executionResult();
  }
  catch (...)
  {
      // TODO: Some sort of notification of failure.
  }
  return ret;
  \<close>
  \<open>call_temp\<close> is the local \<^verbatim>\<open>temp\<close> when the executive is constructed, \<open>call_execute\<close>
  the executive's part of the \<^verbatim>\<open>try\<close> block, \<open>call_try\<close> the whole block. \<open>call\<close> returns
  the result together with the client it leaves behind.
\<close>

definition call_temp :: "('f, 'l) Client \<Rightarrow> u256 \<Rightarrow> u256 \<Rightarrow> u256 \<Rightarrow> Address \<Rightarrow> State" where
  "call_temp c gas val gasPrice' from' = addBalance from' (val + gasPrice' * gas) (m_postMine c)"

definition call_execute ::
  "('e, 'x) Executive \<Rightarrow> State \<Rightarrow> Address \<Rightarrow> bytes \<Rightarrow> u256 \<Rightarrow> u256 \<Rightarrow> u256 \<Rightarrow> Address
   \<Rightarrow> fault + 'x" where
  "call_execute X temp dest data gas val gasPrice' from' =
     (case Executive_ctor X temp of
        Inl err \<Rightarrow> Inl err
      | Inr e \<Rightarrow>
     (case e_call X e dest dest from' val gasPrice' data gas from' of
        Inl err \<Rightarrow> Inl err
      | Inr (finished, e1) \<Rightarrow>
     (case (if \<not> finished then e_go X e1 else Inr e1) of
        Inl err \<Rightarrow> Inl err
      | Inr e2 \<Rightarrow> e_executionResult X e2)))"

definition call_try ::
  "('e, 'x) Executive \<Rightarrow> ('f, 'l) Client \<Rightarrow> Address \<Rightarrow> bytes \<Rightarrow> u256 \<Rightarrow> u256 \<Rightarrow> u256 \<Rightarrow> Address
   \<Rightarrow> fault + 'x" where
  "call_try X c dest data gas val gasPrice' from' =
     call_execute X (call_temp c gas val gasPrice' from') dest data gas val gasPrice' from'"

definition call ::
  "('e, 'x) Executive \<Rightarrow> ('f, 'l) Client \<Rightarrow> Address \<Rightarrow> bytes \<Rightarrow> u256 \<Rightarrow> u256 \<Rightarrow> u256 \<Rightarrow> Address
   \<Rightarrow> 'x \<times> ('f, 'l) Client" where
  "call X c dest data gas val gasPrice' from' =
     (case call_try X c dest data gas val gasPrice' from' of
        Inl _ \<Rightarrow> (ExecutionResult_ctor X, c)
      | Inr ret \<Rightarrow> (ret, c))"

text \<open>
  Example data for \<^verbatim>\<open>call\<close>: a client whose pending state holds the balances
  \<open>{1: 100}\<close>; an executive that finishes in \<^verbatim>\<open>e.call\<close> and reports the balance of the
  caller in the state it was constructed on; and an executive whose \<^verbatim>\<open>e.go\<close> throws.
\<close>

definition state0 :: State where
  "state0 = \<lparr>balance = (\<lambda>a. if a = 1 then 100 else 0), pending = [], address = 0\<rparr>"

definition chain0 :: "unit BlockChain" where
  "chain0 =
     \<lparr>currentHash = 0, bc_number = 0,
      info = (\<lambda>h. \<lparr>hash = h, parentHash = 0, number = 0, gasLimit = 0, transactionsRoot = 0,
                    logBloom = 0\<rparr>),
      transactions = (\<lambda>h. []), transactionHashes = (\<lambda>h. []), receipts = (\<lambda>h. [])\<rparr>"

definition client0 :: "(unit, unit) Client" where
  "client0 =
     \<lparr>m_bc = chain0, m_tq = [], m_preMine = state0, m_postMine = state0, m_localMiners = [],
      m_remoteMiner = freshMiner, m_filters = [], m_watches = [], m_lastGarbageCollection = 0,
      m_host = None\<rparr>"

definition executive0 :: "(State \<times> Address, u256) Executive" where
  "executive0 =
     \<lparr>ExecutionResult_ctor = 0,
      Executive_ctor = (\<lambda>temp. Inr (temp, 0)),
      e_call = (\<lambda>e dest codeAddress sender val gasPrice' data gas origin. Inr (True, (fst e, sender))),
      e_go = (\<lambda>e. Inr e),
      e_executionResult = (\<lambda>e. Inr (balance (fst e) (snd e)))\<rparr>"

definition executive1 :: "(State \<times> Address, u256) Executive" where
  "executive1 =
     executive0\<lparr>e_call := (\<lambda>e dest codeAddress sender val gasPrice' data gas origin.
                              Inr (False, (fst e, sender))),
                e_go := (\<lambda>e. Inl Thrown)\<rparr>"

section \<open>\<^verbatim>\<open>BasicGasPricer::update\<close>\<close>

text \<open>
  \<^verbatim>\<open>m_octiles\<close> is a \<^verbatim>\<open>std::array<u256, 9>\<close>: a list, of length 9. The local
  \<^verbatim>\<open>map<u256, unsigned> dist\<close> is a list of price and weight, ascending in the price;
  \<^verbatim>\<open>dist[k] += v\<close> creates the entry with weight 0 when the price is new. The conversion
  \<^verbatim>\<open>(unsigned)gasUsed\<close> keeps the low 32 bits.

  \<^verbatim>\<open>
  for (unsigned i = 0; i < r[1].size(); ++i)
  {
      auto gu = brs.receipts[i].gasUsed();
      dist[Transaction(r[1][i].data(), CheckTransaction::None).gasPrice()]
          += (unsigned)brs.receipts[i].gasUsed();
      total += (unsigned)gu;
  }
  \<close>
  is \<open>update_block\<close>, which walks the transactions and the receipts of the block together;
  a block with fewer receipts than transactions reads \<^verbatim>\<open>brs.receipts\<close> out of range.

  \<^verbatim>\<open>
  while (c < 1000 && p)
  {
      BlockInfo bi = _bc.info(p);
      if (bi.transactionsRoot != EmptyTrie) { ... the loop above ... }
      p = bi.parentHash;
      ++c;
  }
  \<close>
  is \<open>update_walk\<close>; the constant \<^verbatim>\<open>EmptyTrie\<close> is a parameter.

  \<^verbatim>\<open>
  unsigned t = 0;
  unsigned q = 1;
  m_octiles[0] = dist.begin()->first;
  for (auto const& i: dist)
  {
      for (; t <= total * q / 8 && t + i.second > total * q / 8; ++q)
          m_octiles[q] = i.first;
      if (q > 7)
          break;
  }
  m_octiles[8] = dist.rbegin()->first;
  \<close>
  The inner loop is \<open>octile_inner\<close> (a write at an index of 9 or more is out of range),
  the outer one \<open>octile_loop\<close>. No statement of the source assigns \<^verbatim>\<open>t\<close> after its
  initialisation, so the loops pass it on unchanged.
\<close>

record BasicGasPricer =
  m_gasPerBlock :: u256
  m_octiles :: "u256 list"

fun dist_add :: "u256 \<Rightarrow> u32 \<Rightarrow> (u256 \<times> u32) list \<Rightarrow> (u256 \<times> u32) list" where
  "dist_add k v [] = [(k, 0 + v)]"
| "dist_add k v ((k', v') # rest) =
     (if k = k' then (k', v' + v) # rest
      else if k < k' then (k, 0 + v) # (k', v') # rest
      else (k', v') # dist_add k v rest)"

fun update_block ::
  "Transaction list \<Rightarrow> 'l TransactionReceipt list \<Rightarrow> (u256 \<times> u32) list \<times> u32
   \<Rightarrow> fault + (u256 \<times> u32) list \<times> u32" where
  "update_block [] rs (dist, total') = Inr (dist, total')"
| "update_block (t # ts) [] (dist, total') = Inl OutOfRange"
| "update_block (t # ts) (r # rs) (dist, total') =
     update_block ts rs (dist_add (gasPrice t) (ucast (gasUsed r)) dist, total' + ucast (gasUsed r))"

function update_walk ::
  "h256 \<Rightarrow> 'l BlockChain \<Rightarrow> nat \<Rightarrow> h256 \<Rightarrow> (u256 \<times> u32) list \<times> u32
   \<Rightarrow> fault + (u256 \<times> u32) list \<times> u32" where
  "update_walk EmptyTrie bc c p acc =
     (if c < 1000 \<and> p \<noteq> 0
      then
        let bi = info bc p in
        case (if transactionsRoot bi \<noteq> EmptyTrie
              then update_block (transactions bc p) (receipts bc (hash bi)) acc
              else Inr acc) of
          Inl e \<Rightarrow> Inl e
        | Inr acc' \<Rightarrow> update_walk EmptyTrie bc (c + 1) (parentHash bi) acc'
      else Inr acc)"
  by pat_completeness auto
termination
  by (relation "measure (\<lambda>(EmptyTrie, bc, c, p, acc). 1000 - c)") auto

function octile_inner ::
  "u32 \<Rightarrow> u32 \<Rightarrow> u256 \<times> u32 \<Rightarrow> u32 \<Rightarrow> u256 list \<Rightarrow> fault + u32 \<times> u256 list" where
  "octile_inner total' t i q octiles =
     (if t \<le> total' * q div 8 \<and> t + snd i > total' * q div 8
      then
        if q < 9 then octile_inner total' t i (q + 1) (octiles[unat q := fst i])
        else Inl OutOfRange
      else Inr (q, octiles))"
  by pat_completeness auto
termination
  apply (relation "measure (\<lambda>(total', t, i, q, octiles). 9 - unat q)")
   apply simp
  apply (auto simp: word_less_nat_alt unat_word_ariths)
  done

fun octile_loop ::
  "u32 \<Rightarrow> u32 \<Rightarrow> (u256 \<times> u32) list \<Rightarrow> u32 \<Rightarrow> u256 list \<Rightarrow> fault + u256 list" where
  "octile_loop total' t [] q octiles = Inr octiles"
| "octile_loop total' t (i # rest) q octiles =
     (case octile_inner total' t i q octiles of
        Inl e \<Rightarrow> Inl e
      | Inr (q', octiles') \<Rightarrow>
          if q' > 7 then Inr octiles' else octile_loop total' t rest q' octiles')"

definition BasicGasPricer_update ::
  "h256 \<Rightarrow> 'l BlockChain \<Rightarrow> BasicGasPricer \<Rightarrow> fault + BasicGasPricer" where
  "BasicGasPricer_update EmptyTrie bc gp =
     (let p = currentHash bc;
          gp1 = gp\<lparr>m_gasPerBlock := gasLimit (info bc p)\<rparr>
      in case update_walk EmptyTrie bc 0 p ([], 0) of
           Inl e \<Rightarrow> Inl e
         | Inr (dist, total') \<Rightarrow>
             if total' > 0
             then
               (case dist of
                  [] \<Rightarrow> Inl OutOfRange
                | d # _ \<Rightarrow>
                    (case octile_loop total' 0 dist 1 ((m_octiles gp1)[0 := fst d]) of
                       Inl e \<Rightarrow> Inl e
                     | Inr octiles \<Rightarrow>
                         Inr (gp1\<lparr>m_octiles := octiles[8 := fst (last dist)]\<rparr>)))
             else Inr gp1)"


text \<open>
  Example data: a chain whose head block 1 holds two transactions, of gas price 1 and 2,
  that used 4 gas each, and whose parent is the null hash; and a pricer as constructed,
  with every octile 0.
\<close>

definition chain1 :: "unit BlockChain" where
  "chain1 =
     \<lparr>currentHash = 1, bc_number = 1,
      info = (\<lambda>h. \<lparr>hash = h, parentHash = 0, number = 1, gasLimit = 3141592,
                    transactionsRoot = 7, logBloom = 0\<rparr>),
      transactions =
        (\<lambda>h. if h = 1 then [\<lparr>gasPrice = 1, sha3 = 11\<rparr>, \<lparr>gasPrice = 2, sha3 = 12\<rparr>] else []),
      transactionHashes = (\<lambda>h. if h = 1 then [11, 12] else []),
      receipts =
        (\<lambda>h. if h = 1
             then [\<lparr>gasUsed = 4, bloom = 0, log = []\<rparr>, \<lparr>gasUsed = 4, bloom = 0, log = []\<rparr>]
             else [])\<rparr>"

definition pricer0 :: BasicGasPricer where
  "pricer0 = \<lparr>m_gasPerBlock = 0, m_octiles = replicate 9 0\<rparr>"

text \<open>
  The octile as the specification words it, for comparison: the smallest observed price
  whose cumulative gas-used weight reaches the target \<open>k * total div 8\<close>.
\<close>

fun spec_octile :: "nat \<Rightarrow> nat \<Rightarrow> (u256 \<times> u32) list \<Rightarrow> u256 option" where
  "spec_octile target acc [] = None"
| "spec_octile target acc ((price, weight) # rest) =
     (if target \<le> acc + unat weight then Some price
      else spec_octile target (acc + unat weight) rest)"

section \<open>\<^verbatim>\<open>Client::doWork\<close>\<close>

text \<open>
  What the collaborators answer during one pass, as parameters of the pass: the filter
  queries \<^verbatim>\<open>envelops\<close> and \<^verbatim>\<open>matches\<close> (on a receipt: the log entries selected; on a
  bloom: a flag), the constants \<^verbatim>\<open>SpecialLogEntry\<close>, \<^verbatim>\<open>PendingChangedFilter\<close> and
  \<^verbatim>\<open>ChainChangedFilter\<close>, the chain store's \<^verbatim>\<open>attemptImport\<close>, \<^verbatim>\<open>sync\<close> and
  \<^verbatim>\<open>garbageCollect\<close> (each returns the chain store it leaves), \<^verbatim>\<open>Client::transaction\<close>,
  \<^verbatim>\<open>State::sync(bc)\<close>, \<^verbatim>\<open>State::sync(bc, tq, gp)\<close> (which returns the receipts of the
  newly applied transactions, the state and the calls it made on the queue), and the
  readings of \<^verbatim>\<open>chrono::system_clock::now()\<close>: \<open>now_gc\<close> where the pass decides whether
  to collect, \<open>now_poll key\<close> where it examines the watch \<open>key\<close>, \<open>now_done\<close> where it
  stamps \<^verbatim>\<open>m_lastGarbageCollection\<close>.
\<close>

record ('f, 'l) World =
  envelops :: "'f \<Rightarrow> RelativeBlock \<Rightarrow> nat \<Rightarrow> bool"
  matches :: "'f \<Rightarrow> 'l TransactionReceipt \<Rightarrow> 'l list"
  matchesBloom :: "'f \<Rightarrow> LogBloom \<Rightarrow> bool"
  SpecialLogEntry :: 'l
  PendingChangedFilter :: h256
  ChainChangedFilter :: h256
  attemptImport :: "bytes \<Rightarrow> 'l BlockChain \<Rightarrow> (h256 list \<times> h256) \<times> 'l BlockChain"
  bc_sync :: "'l BlockChain \<Rightarrow> (h256 list \<times> h256 list \<times> bool) \<times> 'l BlockChain"
  garbageCollect :: "'l BlockChain \<Rightarrow> 'l BlockChain"
  transaction :: "'l BlockChain \<Rightarrow> h256 \<Rightarrow> nat \<Rightarrow> Transaction"
  State_sync :: "'l BlockChain \<Rightarrow> State \<Rightarrow> bool \<times> State"
  State_sync_tq ::
    "'l BlockChain \<Rightarrow> TransactionQueue \<Rightarrow> State
     \<Rightarrow> 'l TransactionReceipt list \<times> State \<times> TQCall list"
  now_gc :: time_point
  now_poll :: "u32 \<Rightarrow> time_point"
  now_done :: time_point

text \<open>The locals of \<^verbatim>\<open>doWork\<close> that its phases share.\<close>

record Locals =
  stillGotWork :: bool
  changeds :: "h256 set"
  resyncStateNeeded :: bool

text \<open>
  A \<^verbatim>\<open>system_clock::time_point\<close> and a duration are a signed 64-bit count of nanoseconds
  (since the clock's epoch, for a time point), read by \<open>sint\<close>. Their subtraction is
  that of the machine, which wraps around; the comparison \<^verbatim>\<open>>\<close> is the signed one.
  \<^verbatim>\<open>time_point::max()\<close> is the largest signed 64-bit count. \<open>ns s\<close> is the number of
  nanoseconds of \<open>s\<close> seconds, \<^verbatim>\<open>chrono::seconds(s)\<close> the duration of that count.
  A time point \<open>after_epoch\<close> is one the clock reads at or after its epoch.
\<close>

definition ns :: "int \<Rightarrow> int" where
  "ns s = s * 1000000000"

definition seconds :: "int \<Rightarrow> 64 word" where
  "seconds s = word_of_int (ns s)"

definition time_point_max :: time_point where
  "time_point_max = 2 ^ 63 - 1"

definition after_epoch :: "time_point \<Rightarrow> bool" where
  "after_epoch t = (0 \<le> sint t)"

definition noteStateChange :: "Miner \<Rightarrow> Miner" where
  "noteStateChange m = m\<lparr>stateChanges := stateChanges m + 1\<rparr>"

text \<open>
  \<^verbatim>\<open>
  for (pair<h256 const, InstalledFilter>& i: m_filters)
      if (i.second.filter.envelops(RelativeBlock::Pending, m_bc.number() + 1))
      {
          auto m = i.second.filter.matches(_receipt);
          if (m.size())
          {
              for (LogEntry const& l: m)
                  i.second.changes.push_back(
                      LocalisedLogEntry(l, m_bc.number() + 1, _transactionHash));
              io_changed.insert(i.first);
          }
      }
  \<close>
  \<open>pending_filter\<close> is the body for one filter: the filter it leaves and whether its id
  is inserted into \<^verbatim>\<open>io_changed\<close>.
\<close>

definition pending_filter ::
  "('f, 'l) World \<Rightarrow> u32 \<Rightarrow> 'l TransactionReceipt \<Rightarrow> h256 \<Rightarrow> ('f, 'l) InstalledFilter
   \<Rightarrow> ('f, 'l) InstalledFilter \<times> bool" where
  "pending_filter W n receipt transactionHash' i =
     (if envelops W (filter_f i) Pending (unat (n + 1))
      then
        let m = matches W (filter_f i) receipt in
        if m \<noteq> []
        then (i\<lparr>changes := changes i @
                  map (\<lambda>l. \<lparr>entry = l, lle_number = n + 1, transactionHash = transactionHash'\<rparr>) m\<rparr>,
              True)
        else (i, False)
      else (i, False))"

fun appendFromNewPending_loop ::
  "('f, 'l) World \<Rightarrow> u32 \<Rightarrow> 'l TransactionReceipt \<Rightarrow> h256 \<Rightarrow> (h256 \<times> ('f, 'l) InstalledFilter) list
   \<Rightarrow> h256 set \<Rightarrow> (h256 \<times> ('f, 'l) InstalledFilter) list \<times> h256 set" where
  "appendFromNewPending_loop W n receipt th [] io_changed = ([], io_changed)"
| "appendFromNewPending_loop W n receipt th ((k, i) # rest) io_changed =
     (let (i', hit) = pending_filter W n receipt th i;
          (rest', io_changed') =
            appendFromNewPending_loop W n receipt th rest
              (if hit then insert k io_changed else io_changed)
      in ((k, i') # rest', io_changed'))"

definition appendFromNewPending ::
  "('f, 'l) World \<Rightarrow> 'l TransactionReceipt \<Rightarrow> h256 \<Rightarrow> ('f, 'l) Client \<times> Locals
   \<Rightarrow> ('f, 'l) Client \<times> Locals" where
  "appendFromNewPending W receipt transactionHash' st =
     (let (c, l) = st;
          (fs, io_changed) =
            appendFromNewPending_loop W (bc_number (m_bc c)) receipt transactionHash'
              (m_filters c) (changeds l)
      in (c\<lparr>m_filters := fs\<rparr>, l\<lparr>changeds := io_changed\<rparr>))"

text \<open>
  \<^verbatim>\<open>
  auto d = m_bc.info(_block);
  auto br = m_bc.receipts(_block);
  for (pair<h256 const, InstalledFilter>& i: m_filters)
      if (i.second.filter.envelops(RelativeBlock::Latest, d.number)
          && i.second.filter.matches(d.logBloom))
          for (size_t j = 0; j < br.receipts.size(); j++)
          {
              auto tr = br.receipts[j];
              auto m = i.second.filter.matches(tr);
              if (m.size())
              {
                  auto transactionHash = transaction(d.hash(), j).sha3();
                  for (LogEntry const& l: m)
                      i.second.changes.push_back(
                          LocalisedLogEntry(l, (unsigned)d.number, transactionHash));
                  io_changed.insert(i.first);
              }
          }
  \<close>
\<close>

fun block_receipts ::
  "('f, 'l) World \<Rightarrow> 'l BlockChain \<Rightarrow> BlockInfo \<Rightarrow> nat \<Rightarrow> 'l TransactionReceipt list
   \<Rightarrow> ('f, 'l) InstalledFilter \<times> bool \<Rightarrow> ('f, 'l) InstalledFilter \<times> bool" where
  "block_receipts W bc d j [] acc = acc"
| "block_receipts W bc d j (tr # rest) (i, hit) =
     (let m = matches W (filter_f i) tr in
      if m \<noteq> []
      then
        let transactionHash' = sha3 (transaction W bc (hash d) j) in
        block_receipts W bc d (j + 1) rest
          (i\<lparr>changes := changes i @
               map (\<lambda>l. \<lparr>entry = l, lle_number = ucast (number d),
                         transactionHash = transactionHash'\<rparr>) m\<rparr>,
           True)
      else block_receipts W bc d (j + 1) rest (i, hit))"

definition block_filter ::
  "('f, 'l) World \<Rightarrow> 'l BlockChain \<Rightarrow> BlockInfo \<Rightarrow> 'l TransactionReceipt list
   \<Rightarrow> ('f, 'l) InstalledFilter \<Rightarrow> ('f, 'l) InstalledFilter \<times> bool" where
  "block_filter W bc d br i =
     (if envelops W (filter_f i) Latest (unat (number d)) \<and> matchesBloom W (filter_f i) (logBloom d)
      then block_receipts W bc d 0 br (i, False)
      else (i, False))"

fun appendFromNewBlock_loop ::
  "('f, 'l) World \<Rightarrow> 'l BlockChain \<Rightarrow> BlockInfo \<Rightarrow> 'l TransactionReceipt list
   \<Rightarrow> (h256 \<times> ('f, 'l) InstalledFilter) list \<Rightarrow> h256 set
   \<Rightarrow> (h256 \<times> ('f, 'l) InstalledFilter) list \<times> h256 set" where
  "appendFromNewBlock_loop W bc d br [] io_changed = ([], io_changed)"
| "appendFromNewBlock_loop W bc d br ((k, i) # rest) io_changed =
     (let (i', hit) = block_filter W bc d br i;
          (rest', io_changed') =
            appendFromNewBlock_loop W bc d br rest
              (if hit then insert k io_changed else io_changed)
      in ((k, i') # rest', io_changed'))"

definition appendFromNewBlock ::
  "('f, 'l) World \<Rightarrow> h256 \<Rightarrow> ('f, 'l) Client \<times> Locals \<Rightarrow> ('f, 'l) Client \<times> Locals" where
  "appendFromNewBlock W block st =
     (let (c, l) = st;
          d = info (m_bc c) block;
          br = receipts (m_bc c) block;
          (fs, io_changed) = appendFromNewBlock_loop W (m_bc c) d br (m_filters c) (changeds l)
      in (c\<lparr>m_filters := fs\<rparr>, l\<lparr>changeds := io_changed\<rparr>))"

text \<open>
  \<^verbatim>\<open>
  for (auto& w: m_watches)
      if (_filters.count(w.second.id))
      {
          if (m_filters.count(w.second.id))   // Normal filtering watch
              w.second.changes += m_filters.at(w.second.id).changes;
          else                                // Special ('pending'/'latest') watch
              w.second.changes.push_back(LocalisedLogEntry(SpecialLogEntry, 0));
      }
  for (auto& i: m_filters)
      i.second.changes.clear();
  \<close>
\<close>

definition noteChanged ::
  "('f, 'l) World \<Rightarrow> h256 set \<Rightarrow> ('f, 'l) Client \<Rightarrow> ('f, 'l) Client" where
  "noteChanged W filters c =
     c\<lparr>m_watches :=
         map (\<lambda>(key, w).
                if id_w w \<in> filters
                then (case map_of (m_filters c) (id_w w) of
                        Some i \<Rightarrow> (key, w\<lparr>changes_w := changes_w w @ changes i\<rparr>)
                      | None \<Rightarrow>
                          (key, w\<lparr>changes_w := changes_w w @
                             [\<lparr>entry = SpecialLogEntry W, lle_number = 0, transactionHash = 0\<rparr>]\<rparr>))
                else (key, w))
             (m_watches c),
       m_filters := map (\<lambda>(k, i). (k, i\<lparr>changes := []\<rparr>)) (m_filters c)\<rparr>"

text \<open>
  The lambda \<^verbatim>\<open>maintainMiner\<close> of \<^verbatim>\<open>doWork\<close> (its \<^verbatim>\<open>if (false && ...)\<close> branch is dead):
  \<^verbatim>\<open>
  if (m.isComplete())
  {
      tie(hs, c) = m_bc.attemptImport(m.blockData(), m_stateDB);
      if (hs.size())
      {
          for (auto const& h: hs)
              if (h != c)
                  appendFromNewBlock(h, changeds);
          changeds.insert(ChainChangedFilter);
      }
      for (auto& m: m_localMiners)
          m.noteStateChange();
  }
  \<close>
\<close>

definition maintainMiner ::
  "('f, 'l) World \<Rightarrow> Miner \<Rightarrow> ('f, 'l) Client \<times> Locals \<Rightarrow> ('f, 'l) Client \<times> Locals" where
  "maintainMiner W m st =
     (if isComplete m
      then
        let (c, l) = st;
            ((hs, head), bc') = attemptImport W (blockData m) (m_bc c);
            st1 = (c\<lparr>m_bc := bc'\<rparr>, l);
            (c2, l2) =
              (if hs \<noteq> []
               then
                 let (c', l') =
                       foldl (\<lambda>st' h. if h \<noteq> head then appendFromNewBlock W h st' else st') st1 hs
                 in (c', l'\<lparr>changeds := insert (ChainChangedFilter W) (changeds l')\<rparr>)
               else st1)
        in (c2\<lparr>m_localMiners := map noteStateChange (m_localMiners c2)\<rparr>, l2)
      else st)"

text \<open>
  The first phase: \<^verbatim>\<open>maintainMiner\<close> on every local miner, in order (each as it is when
  its turn comes), then on the remote miner.
\<close>

definition doWork_miners ::
  "('f, 'l) World \<Rightarrow> ('f, 'l) Client \<times> Locals \<Rightarrow> ('f, 'l) Client \<times> Locals" where
  "doWork_miners W st =
     (let st1 = foldl (\<lambda>st' n. maintainMiner W (m_localMiners (fst st') ! n) st') st
                  [0 ..< length (m_localMiners (fst st))]
      in maintainMiner W (m_remoteMiner (fst st1)) st1)"

text \<open>
  The second phase, with the state database left out:
  \<^verbatim>\<open>
  tie(fresh, dead, sgw) = m_bc.sync(m_bq, db, 100);
  for (auto const& h: dead)
      for (auto const& t: m_bc.transactions(h))
          m_tq.import(t);
  for (auto const& h: fresh)
      for (auto const& th: m_bc.transactionHashes(h))
          m_tq.drop(th);
  stillGotWork = stillGotWork | sgw;
  if (!fresh.empty())
  {
      for (auto i: fresh)
          appendFromNewBlock(i, changeds);
      changeds.insert(ChainChangedFilter);
  }
  \<close>
\<close>

fun import_transactions :: "Transaction list \<Rightarrow> TransactionQueue \<Rightarrow> TransactionQueue" where
  "import_transactions [] tq = tq"
| "import_transactions (t # ts) tq = import_transactions ts (tq @ [Import t])"

fun resubmit_dead :: "'l BlockChain \<Rightarrow> h256 list \<Rightarrow> TransactionQueue \<Rightarrow> TransactionQueue" where
  "resubmit_dead bc [] tq = tq"
| "resubmit_dead bc (h # hs) tq = resubmit_dead bc hs (import_transactions (transactions bc h) tq)"

fun drop_hashes :: "h256 list \<Rightarrow> TransactionQueue \<Rightarrow> TransactionQueue" where
  "drop_hashes [] tq = tq"
| "drop_hashes (th # ths) tq = drop_hashes ths (tq @ [Drop th])"

fun drop_fresh :: "'l BlockChain \<Rightarrow> h256 list \<Rightarrow> TransactionQueue \<Rightarrow> TransactionQueue" where
  "drop_fresh bc [] tq = tq"
| "drop_fresh bc (h # hs) tq = drop_fresh bc hs (drop_hashes (transactionHashes bc h) tq)"

definition doWork_sync ::
  "('f, 'l) World \<Rightarrow> ('f, 'l) Client \<times> Locals \<Rightarrow> ('f, 'l) Client \<times> Locals" where
  "doWork_sync W st =
     (let (c, l) = st;
          ((fresh, dead, sgw), bc') = bc_sync W (m_bc c);
          c1 = c\<lparr>m_bc := bc'\<rparr>;
          c2 = c1\<lparr>m_tq := resubmit_dead (m_bc c1) dead (m_tq c1)\<rparr>;
          c3 = c2\<lparr>m_tq := drop_fresh (m_bc c2) fresh (m_tq c2)\<rparr>;
          l3 = l\<lparr>stillGotWork := (stillGotWork l \<or> sgw)\<rparr>
      in if fresh \<noteq> []
         then
           let (c4, l4) = foldl (\<lambda>st' i. appendFromNewBlock W i st') (c3, l3) fresh
           in (c4, l4\<lparr>changeds := insert (ChainChangedFilter W) (changeds l4)\<rparr>)
         else (c3, l3))"

text \<open>
  The third phase:
  \<^verbatim>\<open>
  if (m_preMine.sync(m_bc) || m_postMine.address() != m_preMine.address())
  {
      m_postMine = m_preMine;
      resyncStateNeeded = true;
      changeds.insert(PendingChangedFilter);
  }
  \<close>
\<close>

definition doWork_resync ::
  "('f, 'l) World \<Rightarrow> ('f, 'l) Client \<times> Locals \<Rightarrow> ('f, 'l) Client \<times> Locals" where
  "doWork_resync W st =
     (let (c, l) = st;
          (moved, pre) = State_sync W (m_bc c) (m_preMine c);
          c1 = c\<lparr>m_preMine := pre\<rparr>
      in if moved \<or> address (m_postMine c1) \<noteq> address (m_preMine c1)
         then (c1\<lparr>m_postMine := m_preMine c1\<rparr>,
               l\<lparr>resyncStateNeeded := True,
                 changeds := insert (PendingChangedFilter W) (changeds l)\<rparr>)
         else (c1, l))"

text \<open>
  The fourth phase:
  \<^verbatim>\<open>
  TransactionReceipts newPendingReceipts = m_postMine.sync(m_bc, m_tq, *m_gp);
  if (newPendingReceipts.size())
  {
      for (size_t i = 0; i < newPendingReceipts.size(); i++)
          appendFromNewPending(newPendingReceipts[i], changeds, m_postMine.pending()[i].sha3());
      changeds.insert(PendingChangedFilter);
      resyncStateNeeded = true;
      if (auto h = m_host.lock())
          h->noteNewTransactions();
  }
  \<close>
  \<open>pending_receipts\<close> is the loop from index \<open>i\<close> on; \<^verbatim>\<open>m_postMine.pending()[i]\<close> beyond
  the end of the pending list is out of range.
\<close>

fun pending_receipts ::
  "('f, 'l) World \<Rightarrow> nat \<Rightarrow> 'l TransactionReceipt list \<Rightarrow> ('f, 'l) Client \<times> Locals
   \<Rightarrow> fault + ('f, 'l) Client \<times> Locals" where
  "pending_receipts W i [] st = Inr st"
| "pending_receipts W i (r # rest) st =
     (if i < length (pending (m_postMine (fst st)))
      then pending_receipts W (i + 1) rest
             (appendFromNewPending W r (sha3 (pending (m_postMine (fst st)) ! i)) st)
      else Inl OutOfRange)"

definition host_call :: "HostCall \<Rightarrow> ('f, 'l) Client \<Rightarrow> ('f, 'l) Client" where
  "host_call x c =
     (case m_host c of None \<Rightarrow> c | Some calls \<Rightarrow> c\<lparr>m_host := Some (calls @ [x])\<rparr>)"

definition doWork_pending ::
  "('f, 'l) World \<Rightarrow> ('f, 'l) Client \<times> Locals \<Rightarrow> fault + ('f, 'l) Client \<times> Locals" where
  "doWork_pending W st =
     (let (c, l) = st;
          (newPendingReceipts, post, calls) = State_sync_tq W (m_bc c) (m_tq c) (m_postMine c);
          c1 = c\<lparr>m_postMine := post, m_tq := m_tq c @ calls\<rparr>
      in if newPendingReceipts \<noteq> []
         then
           (case pending_receipts W 0 newPendingReceipts (c1, l) of
              Inl e \<Rightarrow> Inl e
            | Inr (c2, l2) \<Rightarrow>
                Inr (host_call NoteNewTransactions c2,
                     l2\<lparr>changeds := insert (PendingChangedFilter W) (changeds l2),
                        resyncStateNeeded := True\<rparr>))
         else Inr (c1, l))"

text \<open>
  After the state lock is released:
  \<^verbatim>\<open>
  if (!changeds.empty())
      if (auto h = m_host.lock())
          h->noteNewBlocks();
  if (resyncStateNeeded)
      for (auto& m: m_localMiners)
          m.noteStateChange();
  noteChanged(changeds);
  \<close>
\<close>

definition doWork_notify ::
  "('f, 'l) World \<Rightarrow> ('f, 'l) Client \<times> Locals \<Rightarrow> ('f, 'l) Client" where
  "doWork_notify W st =
     (let (c, l) = st;
          c1 = (if changeds l \<noteq> {} then host_call NoteNewBlocks c else c);
          c2 = (if resyncStateNeeded l
                then c1\<lparr>m_localMiners := map noteStateChange (m_localMiners c1)\<rparr>
                else c1)
      in noteChanged W (changeds l) c2)"

text \<open>
  Modelled from the spec: \<^verbatim>\<open>uninstallWatch\<close>, which is not part of these sources,
  removes the watch; if its filter is then unreferenced (the reference count, an
  \<^verbatim>\<open>unsigned\<close>, drops to 0), the filter is dropped. An unknown watch is left alone.
\<close>

definition uninstallWatch :: "u32 \<Rightarrow> ('f, 'l) Client \<Rightarrow> ('f, 'l) Client" where
  "uninstallWatch key c =
     (case map_of (m_watches c) key of
        None \<Rightarrow> c
      | Some w \<Rightarrow>
          let c1 = c\<lparr>m_watches := filter (\<lambda>(k, _). k \<noteq> key) (m_watches c)\<rparr>
          in (case map_of (m_filters c1) (id_w w) of
                None \<Rightarrow> c1
              | Some i \<Rightarrow>
                  if refCount i - 1 = 0
                  then c1\<lparr>m_filters := filter (\<lambda>(k, _). k \<noteq> id_w w) (m_filters c1)\<rparr>
                  else c1\<lparr>m_filters :=
                          map (\<lambda>(k, i'). if k = id_w w
                                          then (k, i'\<lparr>refCount := refCount i' - 1\<rparr>)
                                          else (k, i'))
                            (m_filters c1)\<rparr>))"

text \<open>
  The last phase:
  \<^verbatim>\<open>
  if (chrono::system_clock::now() - m_lastGarbageCollection > chrono::seconds(5))
  {
      vector<unsigned> toUninstall;
      for (auto key: keysOf(m_watches))
          if (m_watches[key].lastPoll != chrono::system_clock::time_point::max()
              && chrono::system_clock::now() - m_watches[key].lastPoll > chrono::seconds(20))
              toUninstall.push_back(key);
      for (auto i: toUninstall)
          uninstallWatch(i);
      m_bc.garbageCollect();
      m_lastGarbageCollection = chrono::system_clock::now();
  }
  \<close>
  \<open>expired\<close> is the test on one watch, \<open>gc_scan\<close> the loop that fills \<^verbatim>\<open>toUninstall\<close>
  (the keys of a \<^verbatim>\<open>std::map\<close> are those of its entries, and \<^verbatim>\<open>m_watches[key]\<close> is the
  entry's watch), \<open>gc_due\<close> the guard.
\<close>

definition expired :: "('f, 'l) World \<Rightarrow> u32 \<Rightarrow> 'l ClientWatch \<Rightarrow> bool" where
  "expired W key w =
     (lastPoll w \<noteq> time_point_max \<and> seconds 20 <s now_poll W key - lastPoll w)"

fun gc_scan :: "('f, 'l) World \<Rightarrow> (u32 \<times> 'l ClientWatch) list \<Rightarrow> u32 list" where
  "gc_scan W [] = []"
| "gc_scan W ((key, w) # rest) =
     (if expired W key w then key # gc_scan W rest else gc_scan W rest)"

definition gc_due :: "('f, 'l) World \<Rightarrow> ('f, 'l) Client \<Rightarrow> bool" where
  "gc_due W c = (seconds 5 <s now_gc W - m_lastGarbageCollection c)"

definition doWork_gc :: "('f, 'l) World \<Rightarrow> ('f, 'l) Client \<Rightarrow> ('f, 'l) Client" where
  "doWork_gc W c =
     (if gc_due W c
      then
        let toUninstall = gc_scan W (m_watches c);
            c1 = foldl (\<lambda>c' i. uninstallWatch i c') c toUninstall;
            c2 = c1\<lparr>m_bc := garbageCollect W (m_bc c1)\<rparr>
        in c2\<lparr>m_lastGarbageCollection := now_done W\<rparr>
      else c)"

text \<open>
  One pass. The locks, the log output and the 100 ms sleep of a pass without work are
  left out.
\<close>

definition doWork :: "('f, 'l) World \<Rightarrow> ('f, 'l) Client \<Rightarrow> fault + ('f, 'l) Client" where
  "doWork W c =
     (let st0 = (c, \<lparr>stillGotWork = False, changeds = {}, resyncStateNeeded = False\<rparr>);
          st1 = doWork_miners W st0;
          st2 = doWork_sync W st1;
          st3 = doWork_resync W st2
      in case doWork_pending W st3 of
           Inl e \<Rightarrow> Inl e
         | Inr st4 \<Rightarrow> Inr (doWork_gc W (doWork_notify W st4)))"

section \<open>Notions the theorems are stated with\<close>

text \<open>
  The watches as the collection sees them: key and \<^verbatim>\<open>lastPoll\<close>. A phase leaves a
  client \<open>untouched\<close> when the calls on the queue, the time stamp of the last collection and
  the keys and \<^verbatim>\<open>lastPoll\<close>s of the watches are as before.
\<close>

definition polls :: "(u32 \<times> 'l ClientWatch) list \<Rightarrow> (u32 \<times> time_point) list" where
  "polls ws = map (\<lambda>(key, w). (key, lastPoll w)) ws"

definition untouched :: "('f, 'l) Client \<Rightarrow> ('f, 'l) Client \<Rightarrow> bool" where
  "untouched c c' =
     (m_tq c' = m_tq c \<and> m_lastGarbageCollection c' = m_lastGarbageCollection c
      \<and> polls (m_watches c') = polls (m_watches c))"


text \<open>
  What the loop of the fourth phase appends to a filter, given the pairs the loop forms:
  the \<open>i\<close>-th of them is the transaction \<^verbatim>\<open>m_postMine.pending()[i]\<close>, whose hash the loop
  passes on, with the receipt \<^verbatim>\<open>newPendingReceipts[i]\<close>. \<open>pending_entries\<close> has one entry
  for every log entry of the receipt that the filter selects, with the number
  \<^verbatim>\<open>m_bc.number() + 1\<close> and that hash. Whether the transaction of a pair is the one
  that produced the receipt is not said here.
\<close>

definition pending_entries ::
  "('f, 'l) World \<Rightarrow> u32 \<Rightarrow> 'f \<Rightarrow> (Transaction \<times> 'l TransactionReceipt) list
   \<Rightarrow> 'l LocalisedLogEntry list" where
  "pending_entries W n flt applied =
     concat (map (\<lambda>(tx, r). map (\<lambda>l. \<lparr>entry = l, lle_number = n + 1, transactionHash = sha3 tx\<rparr>)
                                 (matches W flt r)) applied)"

definition pending_accumulate ::
  "('f, 'l) World \<Rightarrow> u32 \<Rightarrow> (Transaction \<times> 'l TransactionReceipt) list
   \<Rightarrow> ('f, 'l) InstalledFilter \<Rightarrow> ('f, 'l) InstalledFilter" where
  "pending_accumulate W n applied i =
     (if envelops W (filter_f i) Pending (unat (n + 1))
      then i\<lparr>changes := changes i @ pending_entries W n (filter_f i) applied\<rparr>
      else i)"


text \<open>
  The clock readings \<open>now_gc\<close> of those passes, of a sequence of passes, in which the
  collection ran. (The guard of the collection reads \<^verbatim>\<open>m_lastGarbageCollection\<close>, which
  no earlier phase of the pass writes.)
\<close>

fun gc_runs :: "('f, 'l) World list \<Rightarrow> ('f, 'l) Client \<Rightarrow> time_point list" where
  "gc_runs [] c = []"
| "gc_runs (W # Ws) c =
     (case doWork W c of
        Inl _ \<Rightarrow> []
      | Inr c' \<Rightarrow> (if gc_due W c then now_gc W # gc_runs Ws c' else gc_runs Ws c'))"


text \<open>
  Example data for a pass: two transactions; a chain in which block 1 holds both and
  block 2 the second; a client with one filter and three watches, last polled at 0, never,
  and at 10 s; a world in which nothing happens, one in which the chain store reports
  block 2 fresh and block 1 dead, and one whose clock reads \<open>t\<close> seconds.
\<close>

definition tx1 :: Transaction where
  "tx1 = \<lparr>gasPrice = 1, sha3 = 11\<rparr>"

definition tx2 :: Transaction where
  "tx2 = \<lparr>gasPrice = 2, sha3 = 12\<rparr>"

definition chain2 :: "nat BlockChain" where
  "chain2 =
     \<lparr>currentHash = 2, bc_number = 2,
      info = (\<lambda>h. \<lparr>hash = h, parentHash = 0, number = 2, gasLimit = 3141592,
                    transactionsRoot = 7, logBloom = 0\<rparr>),
      transactions = (\<lambda>h. if h = 1 then [tx1, tx2] else if h = 2 then [tx2] else []),
      transactionHashes = (\<lambda>h. if h = 1 then [11, 12] else if h = 2 then [12] else []),
      receipts = (\<lambda>h. [])\<rparr>"

definition client1 :: "(nat, nat) Client" where
  "client1 =
     \<lparr>m_bc = chain2, m_tq = [], m_preMine = state0, m_postMine = state0, m_localMiners = [],
      m_remoteMiner = freshMiner,
      m_filters = [(7, \<lparr>filter_f = 6, refCount = 1, changes = []\<rparr>)],
      m_watches =
        [(1, \<lparr>id_w = 7, changes_w = [], lastPoll = 0\<rparr>),
         (2, \<lparr>id_w = 7, changes_w = [], lastPoll = time_point_max\<rparr>),
         (3, \<lparr>id_w = 7, changes_w = [], lastPoll = seconds 10\<rparr>)],
      m_lastGarbageCollection = 0, m_host = None\<rparr>"

definition world0 :: "(nat, nat) World" where
  "world0 =
     \<lparr>envelops = (\<lambda>f relative n. True),
      matches = (\<lambda>f r. filter (\<lambda>l. f \<le> l) (log r)),
      matchesBloom = (\<lambda>f b. True),
      SpecialLogEntry = 0, PendingChangedFilter = 0, ChainChangedFilter = 1,
      attemptImport = (\<lambda>block bc. (([], 0), bc)),
      bc_sync = (\<lambda>bc. (([], [], False), bc)),
      garbageCollect = (\<lambda>bc. bc),
      transaction = (\<lambda>bc h j. transactions bc h ! j),
      State_sync = (\<lambda>bc s. (False, s)),
      State_sync_tq = (\<lambda>bc tq s. ([], s, [])),
      now_gc = 0, now_poll = (\<lambda>key. 0), now_done = 0\<rparr>"

definition world_reorg :: "(nat, nat) World" where
  "world_reorg = world0\<lparr>bc_sync := (\<lambda>bc. (([2], [1], False), bc))\<rparr>"

text \<open>
  Modelled from the spec: \<^verbatim>\<open>State::sync(bc, tq, gp)\<close>, which is not part of these
  sources, applies the queued transactions that are valid on the pending state, in order:
  the pending state is the head state plus the ordered list of applied transactions, so
  the newly applied ones are appended to the pending list, and the receipts returned are
  those of the newly applied transactions. \<open>sync_applying applied\<close> is a
  \<^verbatim>\<open>State::sync\<close> that newly applies the transactions of \<open>applied\<close>, each with its receipt.
\<close>

definition sync_applying ::
  "(Transaction \<times> 'l TransactionReceipt) list \<Rightarrow> 'l BlockChain \<Rightarrow> TransactionQueue \<Rightarrow> State
   \<Rightarrow> 'l TransactionReceipt list \<times> State \<times> TQCall list" where
  "sync_applying applied bc tq s =
     (map snd applied, s\<lparr>pending := pending s @ map fst applied\<rparr>,
      map (\<lambda>(tx, r). NoteGood (sha3 tx)) applied)"

text \<open>
  Example data: a pass in which the first transaction, whose receipt holds the log entry
  8, is newly applied, and a pass in which the second, whose receipt holds the log entry
  9, is.
\<close>

definition world_tx1 :: "(nat, nat) World" where
  "world_tx1 =
     world0\<lparr>State_sync_tq := sync_applying [(tx1, \<lparr>gasUsed = 21000, bloom = 0, log = [8]\<rparr>)]\<rparr>"

definition world_tx2 :: "(nat, nat) World" where
  "world_tx2 =
     world0\<lparr>State_sync_tq := sync_applying [(tx2, \<lparr>gasUsed = 21000, bloom = 0, log = [9]\<rparr>)]\<rparr>"

text \<open>Two passes, one after the other.\<close>

definition doWork_twice ::
  "('f, 'l) World \<Rightarrow> ('f, 'l) World \<Rightarrow> ('f, 'l) Client \<Rightarrow> fault + ('f, 'l) Client" where
  "doWork_twice W1 W2 c = (case doWork W1 c of Inl e \<Rightarrow> Inl e | Inr c1 \<Rightarrow> doWork W2 c1)"

definition world_at :: "int \<Rightarrow> (nat, nat) World" where
  "world_at t =
     world0\<lparr>now_gc := seconds t, now_poll := (\<lambda>key. seconds t), now_done := seconds t\<rparr>"

section \<open>Theorems\<close>

subsection \<open>hashrate\<close>

lemma hashrate_loop_sum:
  "\<forall>m \<in> set miners. ms (miningProgress m) \<noteq> 0 \<Longrightarrow>
   hashrate_loop ret miners =
     Inr (ret + sum_list (map (\<lambda>m. ucast (hashes (miningProgress m) div ms (miningProgress m)))
                              miners))"
  by (induction miners arbitrary: ret) (simp_all add: add.assoc)

lemma unat_quotient_u64:
  "unat (ucast ((a :: u32) div b) :: u64) = unat a div unat b"
proof -
  have "unat (a div b) < 2 ^ 64"
    using unsigned_less [of "a div b", where 'a = nat]
    by (simp add: order_less_trans [where y = "2 ^ 32"])
  then show ?thesis
    by (simp add: unsigned_ucast_eq take_bit_nat_eq_self unat_div)
qed

lemma unat_sum_list_u64:
  fixes f :: "'a \<Rightarrow> u32"
  assumes "length xs < 2 ^ 32"
  shows "unat (sum_list (map (\<lambda>x. (ucast (f x) :: u64)) xs)) = sum_list (map (\<lambda>x. unat (f x)) xs)
         \<and> sum_list (map (\<lambda>x. unat (f x)) xs) \<le> length xs * (2 ^ 32 - 1)"
  using assms
proof (induction xs)
  case Nil
  then show ?case by simp
next
  case (Cons x xs)
  then have ih: "unat (sum_list (map (\<lambda>x. (ucast (f x) :: u64)) xs)) = sum_list (map (\<lambda>x. unat (f x)) xs)"
    and bound: "sum_list (map (\<lambda>x. unat (f x)) xs) \<le> length xs * (2 ^ 32 - 1)"
    by simp_all
  have fx: "unat (f x) \<le> 2 ^ 32 - 1"
    using unsigned_less [of "f x", where 'a = nat] by simp
  have len: "Suc (length xs) < 2 ^ 32"
    using Cons.prems by simp
  have "Suc (length xs) * (2 ^ 32 - 1) < (2 ^ 32 :: nat) * 2 ^ 32"
    using len by (intro mult_strict_mono) simp_all
  then have small: "unat (f x) + sum_list (map (\<lambda>x. unat (f x)) xs) < 2 ^ 64"
    using fx bound by simp
  have "unat ((ucast (f x) :: u64) + sum_list (map (\<lambda>x. (ucast (f x) :: u64)) xs))
        = unat (f x) + sum_list (map (\<lambda>x. unat (f x)) xs)"
  proof -
    have "unat (ucast (f x) :: u64) = unat (f x)"
      using fx by (simp add: unsigned_ucast_eq take_bit_nat_eq_self)
    then show ?thesis
      using small by (simp add: unat_word_ariths ih)
  qed
  then show ?case
    using fx bound by simp
qed


lemma hashrate_loop_zero:
  "\<exists>m \<in> set miners. ms (miningProgress m) = 0 \<Longrightarrow> hashrate_loop ret miners = Inl DivisionByZero"
  by (induction miners arbitrary: ret) auto

text \<open>
  C9. For every vector of local miners whose elapsed-millisecond counters are all
  nonzero (the vector is sized by an \<^verbatim>\<open>unsigned\<close>, so it has fewer than \<open>2 ^ 32\<close>
  entries), \<^verbatim>\<open>hashrate()\<close> returns the sum over the miners of each miner's own
  \<open>hashes div ms\<close>, divided by 1000: every miner's hash count is divided by its own
  milliseconds before the summation, and no wrap-around occurs.
\<close>

theorem hashrate_sum_of_quotients:
  assumes "\<forall>m \<in> set miners. ms (miningProgress m) \<noteq> 0"
    and "length miners < 2 ^ 32"
  shows "\<exists>r. hashrate miners = Inr r \<and>
             unat r = (\<Sum>m\<leftarrow>miners. unat (hashes (miningProgress m)) div unat (ms (miningProgress m)))
                      div 1000"
proof -
  let ?q = "\<lambda>m. hashes (miningProgress m) div ms (miningProgress m)"
  let ?s = "sum_list (map (\<lambda>m. (ucast (?q m) :: u64)) miners)"
  have loop: "hashrate_loop 0 miners = Inr ?s"
    using hashrate_loop_sum [OF assms(1), of 0] by simp
  have "unat ?s = (\<Sum>m\<leftarrow>miners. unat (?q m))"
    using unat_sum_list_u64 [OF assms(2), of ?q] by blast
  then have "unat (?s div 1000) =
      (\<Sum>m\<leftarrow>miners. unat (hashes (miningProgress m)) div unat (ms (miningProgress m))) div 1000"
    by (simp add: unat_div)
  then show ?thesis
    by (simp add: hashrate_def loop)
qed

text \<open>
  Two miners of 1500000 hashes in 1000 ms each: the quotients are 1500 and 1500, the
  result is 3 (summing numerators and denominators first would give 1).
\<close>

theorem hashrate_sum_of_quotients_witness:
  "hashrate
     [\<lparr>miningProgress = \<lparr>hashes = 1500000, ms = 1000\<rparr>, isComplete = False, blockData = [],
        stateChanges = 0\<rparr>,
      \<lparr>miningProgress = \<lparr>hashes = 1500000, ms = 1000\<rparr>, isComplete = False, blockData = [],
        stateChanges = 0\<rparr>] = Inr 3"
proof -
  let ?m = "\<lparr>miningProgress = \<lparr>hashes = 1500000, ms = 1000\<rparr>, isComplete = False,
             blockData = [], stateChanges = 0\<rparr>"
  have nz: "\<forall>m \<in> set [?m, ?m]. ms (miningProgress m) \<noteq> 0" by simp
  have len: "length [?m, ?m] < 2 ^ 32" by simp
  from hashrate_sum_of_quotients [OF nz len]
  obtain r where r: "hashrate [?m, ?m] = Inr r" and "unat r = 3"
    by auto
  then have "r = 3"
    by (simp add: word_unat_eq_iff)
  with r show ?thesis by simp
qed

text \<open>
  C10. The division in \<^verbatim>\<open>hashrate()\<close> is unguarded: \<^verbatim>\<open>hashrate()\<close> fails with a
  division by zero exactly when some local miner's elapsed-millisecond counter is 0, and
  such a miner exists (every miner that \<^verbatim>\<open>setMiningThreads\<close> has just set up).
\<close>

theorem hashrate_division_by_zero:
  "(hashrate miners = Inl DivisionByZero) = (\<exists>m \<in> set miners. ms (miningProgress m) = 0)"
proof
  assume "hashrate miners = Inl DivisionByZero"
  show "\<exists>m \<in> set miners. ms (miningProgress m) = 0"
  proof (rule ccontr)
    assume "\<not> (\<exists>m \<in> set miners. ms (miningProgress m) = 0)"
    then have "\<forall>m \<in> set miners. ms (miningProgress m) \<noteq> 0" by simp
    from hashrate_loop_sum [OF this, of 0] \<open>hashrate miners = Inl DivisionByZero\<close>
    show False by (simp add: hashrate_def)
  qed
next
  assume "\<exists>m \<in> set miners. ms (miningProgress m) = 0"
  then show "hashrate miners = Inl DivisionByZero"
    by (simp add: hashrate_def hashrate_loop_zero)
qed

theorem hashrate_division_by_zero_witness:
  "hashrate (setMiningThreads 4 False 0) = Inl DivisionByZero"
proof -
  have "freshMiner \<in> set (setMiningThreads 4 False 0)"
    by (simp add: setMiningThreads_def)
  moreover have "ms (miningProgress freshMiner) = 0"
    by (simp add: freshMiner_def)
  ultimately have "\<exists>m \<in> set (setMiningThreads 4 False 0). ms (miningProgress m) = 0"
    by blast
  then show ?thesis
    using hashrate_division_by_zero [of "setMiningThreads 4 False 0"] by simp
qed


subsection \<open>VersionChecker\<close>

lemma toUnsigned_Thrown: "toUnsigned r = Inl e \<Longrightarrow> e = Thrown"
  by (auto simp: toUnsigned_def split: RLP.splits if_splits)

lemma toUnsigned_unat: "toUnsigned (RLPInt (unat (w :: u32))) = Inr w"
  using unsigned_less [of w, where 'a = nat] by (simp add: toUnsigned_def)

lemma parent_path_status: "parent_path (p @ ''/status'') = p"
  by (simp add: parent_path_def)

lemma VersionChecker_path:
  "m_path (VersionChecker_ctor K dflt fs dbPath) = (if dbPath = [] then dflt else dbPath)"
  by (simp add: VersionChecker_ctor_def Let_def)

lemma VersionChecker_action_cases:
  "m_action (VersionChecker_ctor K dflt fs dbPath) =
     (case statusField fs (if dbPath = [] then dflt else dbPath) 0 of
        Inl _ \<Rightarrow> Kill
      | Inr P \<Rightarrow>
     (case statusField fs (if dbPath = [] then dflt else dbPath) 1 of
        Inl _ \<Rightarrow> Kill
      | Inr m \<Rightarrow>
     (case statusField fs (if dbPath = [] then dflt else dbPath) 2 of
        Inl _ \<Rightarrow> Kill
      | Inr D \<Rightarrow>
          if P = c_protocolVersion K \<and> D = c_databaseVersion K
          then (if m = c_minorProtocolVersion K then Trust else Verify)
          else Kill)))"
  by (cases "dbPath = []") (simp_all add: VersionChecker_ctor_def Let_def split: sum.splits)

text \<open>
  C2. Let \<open>P\<close>, \<open>m\<close>, \<open>D\<close> be the three fields read from the status file of the data
  directory and \<open>P'\<close>, \<open>m'\<close>, \<open>D'\<close> the compiled-in constants. The action is Trust iff all
  three fields are read and equal the constants; Verify iff \<open>P = P'\<close>, \<open>D = D'\<close> and
  \<open>m\<close> is read and differs from \<open>m'\<close>; Kill in every other case, in particular when the
  status file is absent or one of the three fields cannot be read.
\<close>

theorem VersionChecker_action:
  fixes K :: Constants
  shows
  "(m_action (VersionChecker_ctor K dflt fs dbPath) = Trust) =
     (statusField fs (m_path (VersionChecker_ctor K dflt fs dbPath)) 0 = Inr (c_protocolVersion K) \<and>
      statusField fs (m_path (VersionChecker_ctor K dflt fs dbPath)) 1 = Inr (c_minorProtocolVersion K) \<and>
      statusField fs (m_path (VersionChecker_ctor K dflt fs dbPath)) 2 = Inr (c_databaseVersion K))
   \<and> (m_action (VersionChecker_ctor K dflt fs dbPath) = Verify) =
     (statusField fs (m_path (VersionChecker_ctor K dflt fs dbPath)) 0 = Inr (c_protocolVersion K) \<and>
      statusField fs (m_path (VersionChecker_ctor K dflt fs dbPath)) 2 = Inr (c_databaseVersion K) \<and>
      (\<exists>m. statusField fs (m_path (VersionChecker_ctor K dflt fs dbPath)) 1 = Inr m \<and>
           m \<noteq> c_minorProtocolVersion K))
   \<and> (m_action (VersionChecker_ctor K dflt fs dbPath) = Kill) =
     (\<not> (statusField fs (m_path (VersionChecker_ctor K dflt fs dbPath)) 0 = Inr (c_protocolVersion K) \<and>
         statusField fs (m_path (VersionChecker_ctor K dflt fs dbPath)) 2 = Inr (c_databaseVersion K) \<and>
         (\<exists>m. statusField fs (m_path (VersionChecker_ctor K dflt fs dbPath)) 1 = Inr m)))
   \<and> (files fs (m_path (VersionChecker_ctor K dflt fs dbPath) @ ''/status'') = None \<longrightarrow>
        m_action (VersionChecker_ctor K dflt fs dbPath) = Kill)
   \<and> ((\<exists>i < 3. statusField fs (m_path (VersionChecker_ctor K dflt fs dbPath)) i = Inl Thrown) \<longrightarrow>
        m_action (VersionChecker_ctor K dflt fs dbPath) = Kill)"
proof -
  define p where "p = m_path (VersionChecker_ctor K dflt fs dbPath)"
  define a where "a = statusField fs p 0"
  define b where "b = statusField fs p 1"
  define c where "c = statusField fs p 2"
  define act where "act = m_action (VersionChecker_ctor K dflt fs dbPath)"
  have p: "p = (if dbPath = [] then dflt else dbPath)"
    by (simp add: p_def VersionChecker_path)
  have act: "act =
     (case a of Inl _ \<Rightarrow> Kill | Inr P \<Rightarrow>
     (case b of Inl _ \<Rightarrow> Kill | Inr m \<Rightarrow>
     (case c of Inl _ \<Rightarrow> Kill | Inr D \<Rightarrow>
          if P = c_protocolVersion K \<and> D = c_databaseVersion K
          then (if m = c_minorProtocolVersion K then Trust else Verify)
          else Kill)))"
    unfolding act_def a_def b_def c_def p
    by (rule VersionChecker_action_cases)
  have trust: "(act = Trust) =
      (a = Inr (c_protocolVersion K) \<and> b = Inr (c_minorProtocolVersion K) \<and>
       c = Inr (c_databaseVersion K))"
    unfolding act by (cases a; cases b; cases c) auto
  have verify: "(act = Verify) =
      (a = Inr (c_protocolVersion K) \<and> c = Inr (c_databaseVersion K) \<and>
       (\<exists>m. b = Inr m \<and> m \<noteq> c_minorProtocolVersion K))"
    unfolding act by (cases a; cases b; cases c) auto
  have kill: "(act = Kill) =
      (\<not> (a = Inr (c_protocolVersion K) \<and> c = Inr (c_databaseVersion K) \<and> (\<exists>m. b = Inr m)))"
    unfolding act by (cases a; cases b; cases c) auto
  have thrown: "a = Inl Thrown \<or> b = Inl Thrown \<or> c = Inl Thrown \<Longrightarrow> act = Kill"
    unfolding act by (cases a; cases b; cases c) auto
  have absent: "files fs (p @ ''/status'') = None \<longrightarrow> act = Kill"
  proof
    assume "files fs (p @ ''/status'') = None"
    then have "a = Inl Thrown"
      by (simp add: a_def contents_def rlp_at_def toUnsigned_def)
    then show "act = Kill" by (simp add: thrown)
  qed
  have unread: "(\<exists>i < 3. statusField fs p i = Inl Thrown) \<longrightarrow> act = Kill"
  proof
    assume "\<exists>i < 3. statusField fs p i = Inl Thrown"
    then obtain i :: nat where i: "i < 3" "statusField fs p i = Inl Thrown" by blast
    from i(1) have "i = 0 \<or> i = 1 \<or> i = 2" by arith
    with i(2) have "a = Inl Thrown \<or> b = Inl Thrown \<or> c = Inl Thrown"
      unfolding a_def b_def c_def by auto
    then show "act = Kill" by (rule thrown)
  qed
  from trust verify kill absent unread show ?thesis
    unfolding act_def a_def b_def c_def p_def by blast
qed


lemma statusField_rlpList:
  "files fs (p @ ''/status'') = Some (rlpList a b c) \<Longrightarrow>
   statusField fs p 0 = Inr a \<and> statusField fs p 1 = Inr b \<and> statusField fs p 2 = Inr c"
  by (simp add: contents_def rlpList_def rlp_at_def toUnsigned_unat)

theorem VersionChecker_action_witness:
  "m_action (VersionChecker_ctor K0 ''.ethereum'' (fs0 (Some (rlpList 56 1 9))) ''db'') = Trust
   \<and> m_action (VersionChecker_ctor K0 ''.ethereum'' (fs0 (Some (rlpList 56 0 9))) ''db'') = Verify
   \<and> m_action (VersionChecker_ctor K0 ''.ethereum'' (fs0 (Some (rlpList 56 1 8))) ''db'') = Kill
   \<and> m_action (VersionChecker_ctor K0 ''.ethereum'' (fs0 None) ''db'') = Kill"
proof -
  have path: "\<And>K fs. m_path (VersionChecker_ctor K ''.ethereum'' fs ''db'') = ''db''"
    by (simp add: VersionChecker_path)
  have field: "\<And>a b c. statusField (fs0 (Some (rlpList a b c))) ''db'' 0 = Inr a
      \<and> statusField (fs0 (Some (rlpList a b c))) ''db'' 1 = Inr b
      \<and> statusField (fs0 (Some (rlpList a b c))) ''db'' 2 = Inr c"
    by (rule statusField_rlpList) (simp add: fs0_def)
  have "m_action (VersionChecker_ctor K0 ''.ethereum'' (fs0 (Some (rlpList 56 1 9))) ''db'') = Trust"
    using VersionChecker_action [of K0 "''.ethereum''" "fs0 (Some (rlpList 56 1 9))" "''db''"]
      field [of 56 1 9]
    by (simp add: path K0_def)
  moreover
  have "m_action (VersionChecker_ctor K0 ''.ethereum'' (fs0 (Some (rlpList 56 0 9))) ''db'') = Verify"
    using VersionChecker_action [of K0 "''.ethereum''" "fs0 (Some (rlpList 56 0 9))" "''db''"]
      field [of 56 0 9]
    by (simp add: path K0_def)
  moreover
  have "m_action (VersionChecker_ctor K0 ''.ethereum'' (fs0 (Some (rlpList 56 1 8))) ''db'') = Kill"
    using VersionChecker_action [of K0 "''.ethereum''" "fs0 (Some (rlpList 56 1 8))" "''db''"]
      field [of 56 1 8]
    by (simp add: path K0_def)
  moreover
  have "m_action (VersionChecker_ctor K0 ''.ethereum'' (fs0 None) ''db'') = Kill"
    using VersionChecker_action [of K0 "''.ethereum''" "fs0 None" "''db''"]
    by (simp add: path fs0_def)
  ultimately show ?thesis by blast
qed

lemma setOk_Trust: "m_action vc = Trust \<Longrightarrow> setOk K vc fs = fs"
  by (simp add: setOk_def)

lemma setOk_writes:
  assumes "m_action vc \<noteq> Trust"
    and "m_path vc \<in> directories fs \<or> m_path vc \<notin> denied fs"
    and "m_path vc @ ''/status'' \<notin> denied fs"
  shows "setOk K vc fs =
     fs\<lparr>directories := insert (m_path vc) (directories fs),
        files := (files fs)(m_path vc @ ''/status'' \<mapsto>
          rlpList (c_protocolVersion K) (c_minorProtocolVersion K) (c_databaseVersion K)),
        written := written fs @ [m_path vc @ ''/status'']\<rparr>"
  using assms
  by (auto simp: setOk_def create_directory_def writeFile_def parent_path_status Let_def
      insert_absorb)

lemma setOk_unwritable:
  "m_path vc @ ''/status'' \<in> denied fs \<Longrightarrow>
   files (setOk K vc fs) = files fs \<and> written (setOk K vc fs) = written fs"
  by (auto simp: setOk_def create_directory_def writeFile_def Let_def)

text \<open>
  C8, as amended. On a startup whose version check produced Verify or Kill and that
  succeeds in writing (the data directory exists or can be created, and the status file
  can be opened for writing), \<^verbatim>\<open>setOk\<close> creates the directory if it is missing and
  rewrites the status file, which afterwards holds exactly
  \<open>[protocolVersion, minorProtocolVersion, databaseVersion]\<close>. When the version check produced
  Trust, \<^verbatim>\<open>setOk\<close> writes nothing and leaves the file system as it is.
\<close>

theorem startup_status_file:
  assumes "startup K dflt fs dbPath = (vc, fs')"
  shows
  "(m_action vc \<noteq> Trust \<and> (m_path vc \<in> directories fs \<or> m_path vc \<notin> denied fs)
      \<and> m_path vc @ ''/status'' \<notin> denied fs \<longrightarrow>
      files fs' (m_path vc @ ''/status'') =
        Some (rlpList (c_protocolVersion K) (c_minorProtocolVersion K) (c_databaseVersion K))
      \<and> m_path vc \<in> directories fs'
      \<and> written fs' = written fs @ [m_path vc @ ''/status''])
   \<and> (m_action vc = Trust \<longrightarrow> fs' = fs)"
proof -
  from assms have vc: "vc = VersionChecker_ctor K dflt fs dbPath" and fs': "fs' = setOk K vc fs"
    by (auto simp: startup_def Let_def)
  have trust: "m_action vc = Trust \<longrightarrow> fs' = fs"
    by (simp add: fs' setOk_Trust)
  have rewrite: "m_action vc \<noteq> Trust \<and> (m_path vc \<in> directories fs \<or> m_path vc \<notin> denied fs)
      \<and> m_path vc @ ''/status'' \<notin> denied fs \<longrightarrow>
      files fs' (m_path vc @ ''/status'') =
        Some (rlpList (c_protocolVersion K) (c_minorProtocolVersion K) (c_databaseVersion K))
      \<and> m_path vc \<in> directories fs'
      \<and> written fs' = written fs @ [m_path vc @ ''/status'']"
  proof
    assume a: "m_action vc \<noteq> Trust \<and> (m_path vc \<in> directories fs \<or> m_path vc \<notin> denied fs)
      \<and> m_path vc @ ''/status'' \<notin> denied fs"
    then have "fs' =
       fs\<lparr>directories := insert (m_path vc) (directories fs),
          files := (files fs)(m_path vc @ ''/status'' \<mapsto>
            rlpList (c_protocolVersion K) (c_minorProtocolVersion K) (c_databaseVersion K)),
          written := written fs @ [m_path vc @ ''/status'']\<rparr>"
      unfolding fs' by (intro setOk_writes) simp_all
    then show "files fs' (m_path vc @ ''/status'') =
        Some (rlpList (c_protocolVersion K) (c_minorProtocolVersion K) (c_databaseVersion K))
      \<and> m_path vc \<in> directories fs'
      \<and> written fs' = written fs @ [m_path vc @ ''/status'']"
      by simp
  qed
  from rewrite trust show ?thesis by blast
qed

text \<open>
  A data directory that does not exist yet and whose status file is absent: the action is
  Kill, the directory is created and the status file written.
\<close>

theorem startup_status_file_witness:
  "files (snd (startup K0 ''.ethereum''
            \<lparr>directories = {}, files = Map.empty, denied = {}, written = []\<rparr> ''db''))
     ''db/status'' = Some (rlpList 56 1 9)
   \<and> ''db'' \<in> directories (snd (startup K0 ''.ethereum''
            \<lparr>directories = {}, files = Map.empty, denied = {}, written = []\<rparr> ''db''))"
proof -
  let ?fs = "\<lparr>directories = {}, files = Map.empty, denied = {}, written = []\<rparr> :: filesystem"
  obtain vc fs' where st: "startup K0 ''.ethereum'' ?fs ''db'' = (vc, fs')"
    by (cases "startup K0 ''.ethereum'' ?fs ''db''")
  then have vc: "vc = VersionChecker_ctor K0 ''.ethereum'' ?fs ''db''"
    by (auto simp: startup_def Let_def)
  have path: "m_path vc = ''db''"
    by (simp add: vc VersionChecker_path)
  have kill: "m_action vc \<noteq> Trust"
    by (simp add: vc VersionChecker_ctor_def contents_def rlp_at_def toUnsigned_def)
  from startup_status_file [OF st] kill path
  have "files fs' ''db/status'' = Some (rlpList 56 1 9) \<and> ''db'' \<in> directories fs'"
    by (simp add: K0_def)
  with st show ?thesis by simp
qed

text \<open>
  The claim as stated fails when the version check produced Trust: nothing is written.
  With a status record of four fields whose first three are the constants, the action is
  Trust and the file afterwards is still the four-field record.
\<close>

theorem startup_status_file_counterexample:
  "m_action (fst (startup K0 ''.ethereum''
       (fs0 (Some (RLPList [RLPInt 56, RLPInt 1, RLPInt 9, RLPInt 0]))) ''db'')) = Trust
   \<and> written (snd (startup K0 ''.ethereum''
       (fs0 (Some (RLPList [RLPInt 56, RLPInt 1, RLPInt 9, RLPInt 0]))) ''db'')) = []
   \<and> files (snd (startup K0 ''.ethereum''
       (fs0 (Some (RLPList [RLPInt 56, RLPInt 1, RLPInt 9, RLPInt 0]))) ''db'')) ''db/status''
     \<noteq> Some (rlpList (c_protocolVersion K0) (c_minorProtocolVersion K0) (c_databaseVersion K0))"
proof -
  let ?fs = "fs0 (Some (RLPList [RLPInt 56, RLPInt 1, RLPInt 9, RLPInt 0]))"
  have act: "m_action (VersionChecker_ctor K0 ''.ethereum'' ?fs ''db'') = Trust"
    by (simp add: VersionChecker_ctor_def fs0_def contents_def rlp_at_def toUnsigned_def K0_def)
  then have "snd (startup K0 ''.ethereum'' ?fs ''db'') = ?fs"
    by (simp add: startup_def Let_def setOk_Trust)
  with act show ?thesis
    by (simp add: startup_def Let_def fs0_def rlpList_def)
qed


subsection \<open>call\<close>

lemma call_client: "snd (call X c dest data gas val gasPrice' from') = c"
  by (simp add: call_def split: sum.splits)

text \<open>
  C3. For every invocation of \<^verbatim>\<open>call(to, data, gas, value, gasPrice, from)\<close>, the
  simulation runs on a transient copy of the pending state in which \<open>from\<close> has been
  credited \<open>value + gasPrice * gas\<close> (in \<^verbatim>\<open>u256\<close> arithmetic) and nothing else differs;
  the client is left as it was, so the pre-mine and the post-mine state, and with them
  every hash of them, are the same before and after the call.
\<close>

theorem call_transient_copy:
  "fst (call X c dest data gas val gasPrice' from') =
     (case call_execute X (call_temp c gas val gasPrice' from') dest data gas val gasPrice' from' of
        Inl _ \<Rightarrow> ExecutionResult_ctor X
      | Inr ret \<Rightarrow> ret)
   \<and> balance (call_temp c gas val gasPrice' from') =
       (balance (m_postMine c))(from' := balance (m_postMine c) from' + (val + gasPrice' * gas))
   \<and> pending (call_temp c gas val gasPrice' from') = pending (m_postMine c)
   \<and> address (call_temp c gas val gasPrice' from') = address (m_postMine c)
   \<and> snd (call X c dest data gas val gasPrice' from') = c
   \<and> (\<forall>stateHash :: State \<Rightarrow> h256.
        stateHash (m_preMine (snd (call X c dest data gas val gasPrice' from')))
          = stateHash (m_preMine c)
        \<and> stateHash (m_postMine (snd (call X c dest data gas val gasPrice' from')))
          = stateHash (m_postMine c))"
proof -
  have "fst (call X c dest data gas val gasPrice' from') =
     (case call_execute X (call_temp c gas val gasPrice' from') dest data gas val gasPrice' from' of
        Inl _ \<Rightarrow> ExecutionResult_ctor X
      | Inr ret \<Rightarrow> ret)"
    by (simp add: call_def call_try_def split: sum.splits)
  moreover have "balance (call_temp c gas val gasPrice' from') =
       (balance (m_postMine c))(from' := balance (m_postMine c) from' + (val + gasPrice' * gas))"
    and "pending (call_temp c gas val gasPrice' from') = pending (m_postMine c)"
    and "address (call_temp c gas val gasPrice' from') = address (m_postMine c)"
    by (simp_all add: call_temp_def addBalance_def)
  ultimately show ?thesis
    by (simp add: call_client)
qed

text \<open>
  The pending state holds \<open>{1: 100}\<close>; a call from account 2 with value 50, gas price 1
  and gas 21000 runs on a state in which account 2 holds 21050, and afterwards account 2
  still holds 0 in the pending state.
\<close>

theorem call_transient_copy_witness:
  "fst (call executive0 client0 1 [] 21000 50 1 2) = 21050
   \<and> balance (m_postMine (snd (call executive0 client0 1 [] 21000 50 1 2))) 2 = 0
   \<and> balance (m_postMine (snd (call executive0 client0 1 [] 21000 50 1 2))) 1 = 100"
proof -
  have temp: "balance (call_temp client0 21000 50 1 2) 2 = 21050"
    using call_transient_copy [of executive0 client0 1 "[]" 21000 50 1 2]
    by (simp add: client0_def state0_def)
  have "fst (call executive0 client0 1 [] 21000 50 1 2) = 21050"
    using call_transient_copy [of executive0 client0 1 "[]" 21000 50 1 2] temp
    by (simp add: call_execute_def executive0_def)
  moreover have "snd (call executive0 client0 1 [] 21000 50 1 2) = client0"
    using call_transient_copy [of executive0 client0 1 "[]" 21000 50 1 2] by blast
  ultimately show ?thesis
    by (simp add: client0_def state0_def)
qed

lemma call_execute_fails:
  assumes "Executive_ctor X temp = Inl err
     \<or> (\<exists>e. Executive_ctor X temp = Inr e \<and>
          (e_call X e dest dest from' val gasPrice' data gas from' = Inl err
           \<or> (\<exists>e1. e_call X e dest dest from' val gasPrice' data gas from' = Inr (False, e1) \<and>
                (e_go X e1 = Inl err
                 \<or> (\<exists>e2. e_go X e1 = Inr e2 \<and> e_executionResult X e2 = Inl err)))
           \<or> (\<exists>e1. e_call X e dest dest from' val gasPrice' data gas from' = Inr (True, e1) \<and>
                e_executionResult X e1 = Inl err)))"
  shows "call_execute X temp dest data gas val gasPrice' from' = Inl err"
  using assms by (auto simp: call_execute_def)

text \<open>
  C7. For every input to \<^verbatim>\<open>call\<close>: if a step of the simulation throws (the construction
  of the executive, \<^verbatim>\<open>e.call\<close>, \<^verbatim>\<open>e.go\<close> when \<^verbatim>\<open>e.call\<close> returned false, or
  \<^verbatim>\<open>e.executionResult\<close>), \<^verbatim>\<open>call\<close> returns the default-constructed, empty
  \<^verbatim>\<open>ExecutionResult\<close> and leaves the client as it was: the failure does not reach the
  caller.
\<close>

theorem call_swallows_failure:
  assumes "Executive_ctor X (call_temp c gas val gasPrice' from') = Inl err
     \<or> (\<exists>e. Executive_ctor X (call_temp c gas val gasPrice' from') = Inr e \<and>
          (e_call X e dest dest from' val gasPrice' data gas from' = Inl err
           \<or> (\<exists>e1. e_call X e dest dest from' val gasPrice' data gas from' = Inr (False, e1) \<and>
                (e_go X e1 = Inl err
                 \<or> (\<exists>e2. e_go X e1 = Inr e2 \<and> e_executionResult X e2 = Inl err)))
           \<or> (\<exists>e1. e_call X e dest dest from' val gasPrice' data gas from' = Inr (True, e1) \<and>
                e_executionResult X e1 = Inl err)))"
  shows "call X c dest data gas val gasPrice' from' = (ExecutionResult_ctor X, c)"
proof -
  from assms
  have "call_execute X (call_temp c gas val gasPrice' from') dest data gas val gasPrice' from'
        = Inl err"
    by (rule call_execute_fails)
  then show ?thesis
    by (simp add: call_def call_try_def)
qed

text \<open>An executive whose \<^verbatim>\<open>e.go\<close> throws: the result is the empty one.\<close>

theorem call_swallows_failure_witness:
  "call executive1 client0 1 [] 21000 50 1 2 = (0, client0)"
proof -
  let ?temp = "call_temp client0 21000 50 1 2"
  have ctor: "Executive_ctor executive1 ?temp = Inr (?temp, 0)"
    by (simp add: executive1_def executive0_def)
  have step: "e_call executive1 (?temp, 0) 1 1 2 50 1 [] 21000 2 = Inr (False, (?temp, 2))"
    by (simp add: executive1_def executive0_def)
  have go: "e_go executive1 (?temp, 2) = Inl Thrown"
    by (simp add: executive1_def executive0_def)
  have "call executive1 client0 1 [] 21000 50 1 2 = (ExecutionResult_ctor executive1, client0)"
    by (rule call_swallows_failure [where err = Thrown]) (use ctor step go in blast)
  then show ?thesis
    by (simp add: executive1_def executive0_def)
qed


subsection \<open>BasicGasPricer\<close>

lemma update_walk_chain1:
  "update_walk 0 (chain1 :: unit BlockChain) 0 1 ([], 0) = Inr ([(1, 4), (2, 4)], 8)"
  by code_simp

lemma update_chain1:
  "BasicGasPricer_update 0 (chain1 :: unit BlockChain)
     \<lparr>m_gasPerBlock = g, m_octiles = [a0, a1, a2, a3, a4, a5, a6, a7, a8]\<rparr>
   = Inr \<lparr>m_gasPerBlock = 3141592, m_octiles = [1, 1, 1, 1, a4, a5, a6, a7, 2]\<rparr>"
proof -
  have cur: "currentHash (chain1 :: unit BlockChain) = 1"
    and lim: "gasLimit (info (chain1 :: unit BlockChain) 1) = 3141592"
    by (simp_all add: chain1_def)
  have i1: "octile_inner 8 0 (1, 4) 1 [1, a1, a2, a3, a4, a5, a6, a7, a8]
            = Inr (4, [1, 1, 1, 1, a4, a5, a6, a7, a8])"
    by (simp add: octile_inner.simps [of 8 0 "(1, 4)"])
  have i2: "octile_inner 8 0 (2, 4) 4 [1, 1, 1, 1, a4, a5, a6, a7, a8]
            = Inr (4, [1, 1, 1, 1, a4, a5, a6, a7, a8])"
    by (simp add: octile_inner.simps [of 8 0 "(2, 4)"])
  show ?thesis
    by (simp add: BasicGasPricer_update_def Let_def cur lim update_walk_chain1 i1 i2
        del: octile_inner.simps update_walk.simps)
qed

text \<open>
  C5 fails on the code. On the chain whose head holds two transactions of price 1 and 2
  that used 4 gas each, the sampled distribution is \<open>[(1, 4), (2, 4)]\<close> with total 8;
  \<^verbatim>\<open>update\<close> sets the octiles 0 to 3 to price 1 and octile 8 to price 2, and leaves the
  octiles 4 to 7 as they were, whatever they were (0 in a new pricer). For a new pricer
  the result is not ascending, and octile 5 is not the smallest price whose cumulative
  weight reaches \<open>5 * 8 div 8\<close>, which is 2.
\<close>

theorem BasicGasPricer_update_octiles_stale:
  "update_walk 0 (chain1 :: unit BlockChain) 0 (currentHash (chain1 :: unit BlockChain)) ([], 0)
     = Inr ([(1, 4), (2, 4)], 8)
   \<and> BasicGasPricer_update 0 (chain1 :: unit BlockChain)
       \<lparr>m_gasPerBlock = g, m_octiles = [a0, a1, a2, a3, a4, a5, a6, a7, a8]\<rparr>
       = Inr \<lparr>m_gasPerBlock = 3141592, m_octiles = [1, 1, 1, 1, a4, a5, a6, a7, 2]\<rparr>
   \<and> BasicGasPricer_update 0 (chain1 :: unit BlockChain) pricer0
       = Inr \<lparr>m_gasPerBlock = 3141592, m_octiles = [1, 1, 1, 1, 0, 0, 0, 0, 2]\<rparr>
   \<and> \<not> sorted [1, 1, 1, 1, 0, 0, 0, 0, 2 :: u256]
   \<and> spec_octile (5 * 8 div 8) 0 [(1, 4), (2, 4)] = Some 2"
proof -
  have "update_walk 0 (chain1 :: unit BlockChain) 0 (currentHash (chain1 :: unit BlockChain)) ([], 0)
     = Inr ([(1, 4), (2, 4)], 8)"
    using update_walk_chain1 by (simp add: chain1_def del: update_walk.simps)
  moreover have "BasicGasPricer_update 0 (chain1 :: unit BlockChain) pricer0
       = Inr \<lparr>m_gasPerBlock = 3141592, m_octiles = [1, 1, 1, 1, 0, 0, 0, 0, 2]\<rparr>"
    by code_simp
  moreover have "\<not> sorted [1, 1, 1, 1, 0, 0, 0, 0, 2 :: u256]"
    by simp
  moreover have "spec_octile (5 * 8 div 8) 0 [(1, 4), (2, 4)] = Some 2"
    by simp
  ultimately show ?thesis
    using update_chain1 by blast
qed

subsection \<open>The calls on the transaction queue\<close>

lemma import_transactions_calls: "import_transactions ts tq = tq @ map Import ts"
  by (induction ts arbitrary: tq) simp_all

lemma resubmit_dead_calls:
  "resubmit_dead bc hs tq = tq @ map Import (concat (map (transactions bc) hs))"
  by (induction hs arbitrary: tq) (simp_all add: import_transactions_calls)

lemma drop_hashes_calls: "drop_hashes ths tq = tq @ map Drop ths"
  by (induction ths arbitrary: tq) simp_all

lemma drop_fresh_calls:
  "drop_fresh bc hs tq = tq @ map Drop (concat (map (transactionHashes bc) hs))"
  by (induction hs arbitrary: tq) (simp_all add: drop_hashes_calls)

lemma untouched_refl: "untouched c c"
  by (simp add: untouched_def)

lemma untouched_trans: "untouched a b \<Longrightarrow> untouched b c \<Longrightarrow> untouched a c"
  by (simp add: untouched_def)

lemma appendFromNewBlock_untouched: "untouched (fst st) (fst (appendFromNewBlock W h st))"
  by (simp add: appendFromNewBlock_def untouched_def split: prod.splits)

lemma foldl_untouched:
  assumes "\<And>x st. untouched (fst st) (fst (f st x))"
  shows "untouched (fst st) (fst (foldl f st xs))"
proof (induction xs arbitrary: st)
  case Nil
  show ?case by (simp add: untouched_refl)
next
  case (Cons x xs)
  from assms [of st x] Cons [of "f st x"] show ?case
    by (simp add: untouched_trans)
qed

lemma maintainMiner_untouched: "untouched (fst st) (fst (maintainMiner W m st))"
proof (cases "isComplete m")
  case False
  then show ?thesis by (simp add: maintainMiner_def untouched_refl)
next
  case True
  obtain c l where st: "st = (c, l)" by (cases st)
  obtain hs head bc' where imp: "attemptImport W (blockData m) (m_bc c) = ((hs, head), bc')"
    by (metis prod.exhaust)
  let ?st1 = "(c\<lparr>m_bc := bc'\<rparr>, l)"
  let ?f = "\<lambda>st' h. if h \<noteq> head then appendFromNewBlock W h st' else st'"
  have "untouched (fst ?st1) (fst (foldl ?f ?st1 hs))"
    by (rule foldl_untouched) (simp add: appendFromNewBlock_untouched untouched_refl)
  then show ?thesis
    using True
    by (simp add: maintainMiner_def st imp untouched_def Let_def case_prod_beta)
qed

lemma doWork_miners_untouched: "untouched (fst st) (fst (doWork_miners W st))"
proof -
  let ?f = "\<lambda>st' n. maintainMiner W (m_localMiners (fst st') ! n) st'"
  let ?st1 = "foldl ?f st [0 ..< length (m_localMiners (fst st))]"
  have "untouched (fst st) (fst ?st1)"
    by (rule foldl_untouched) (rule maintainMiner_untouched)
  moreover have "untouched (fst ?st1) (fst (maintainMiner W (m_remoteMiner (fst ?st1)) ?st1))"
    by (rule maintainMiner_untouched)
  ultimately show ?thesis
    unfolding doWork_miners_def Let_def by (rule untouched_trans)
qed


subsection \<open>Filters and newly applied transactions\<close>

lemma pending_filter_accumulate:
  "fst (pending_filter W n r (sha3 tx) i) = pending_accumulate W n [(tx, r)] i"
  by (simp add: pending_filter_def pending_accumulate_def pending_entries_def Let_def)

lemma appendFromNewPending_loop_filters:
  "fst (appendFromNewPending_loop W n r (sha3 tx) fs io) =
     map (\<lambda>(k, i). (k, pending_accumulate W n [(tx, r)] i)) fs"
  by (induction fs arbitrary: io)
     (auto simp: pending_filter_accumulate [symmetric] case_prod_beta Let_def)

lemma pending_accumulate_append:
  "pending_accumulate W n ys (pending_accumulate W n xs i) = pending_accumulate W n (xs @ ys) i"
  by (simp add: pending_accumulate_def pending_entries_def)

lemma appendFromNewPending_filters:
  "m_filters (fst (appendFromNewPending W r (sha3 tx) st)) =
     map (\<lambda>(k, i). (k, pending_accumulate W (bc_number (m_bc (fst st))) [(tx, r)] i))
       (m_filters (fst st))"
  using appendFromNewPending_loop_filters
    [of W "bc_number (m_bc (fst st))" r tx "m_filters (fst st)" "changeds (snd st)"]
  by (simp add: appendFromNewPending_def case_prod_beta Let_def)

lemma appendFromNewPending_frame:
  "m_postMine (fst (appendFromNewPending W r th st)) = m_postMine (fst st)
   \<and> m_bc (fst (appendFromNewPending W r th st)) = m_bc (fst st)
   \<and> m_tq (fst (appendFromNewPending W r th st)) = m_tq (fst st)
   \<and> m_watches (fst (appendFromNewPending W r th st)) = m_watches (fst st)
   \<and> m_lastGarbageCollection (fst (appendFromNewPending W r th st))
       = m_lastGarbageCollection (fst st)"
  by (simp add: appendFromNewPending_def case_prod_beta Let_def)

lemma pending_accumulate_Nil: "pending_accumulate W n [] f = f"
  by (simp add: pending_accumulate_def pending_entries_def)

lemma pending_receipts_filters:
  assumes "i + length rs \<le> length (pending (m_postMine (fst st)))"
  shows "\<exists>st'. pending_receipts W i rs st = Inr st'
     \<and> m_filters (fst st') =
         map (\<lambda>(k, f). (k, pending_accumulate W (bc_number (m_bc (fst st)))
                             (zip (drop i (pending (m_postMine (fst st)))) rs) f))
           (m_filters (fst st))
     \<and> m_postMine (fst st') = m_postMine (fst st)
     \<and> m_bc (fst st') = m_bc (fst st)
     \<and> m_tq (fst st') = m_tq (fst st)
     \<and> m_watches (fst st') = m_watches (fst st)
     \<and> m_lastGarbageCollection (fst st') = m_lastGarbageCollection (fst st)"
  using assms
proof (induction rs arbitrary: i st)
  case Nil
  show ?case by (simp add: case_prod_beta pending_accumulate_Nil)
next
  case (Cons r rs)
  let ?ps = "pending (m_postMine (fst st))"
  let ?st1 = "appendFromNewPending W r (sha3 (?ps ! i)) st"
  from Cons.prems have i: "i < length ?ps" by simp
  note frame = appendFromNewPending_frame [of W r "sha3 (?ps ! i)" st]
  from Cons.prems frame have "Suc i + length rs \<le> length (pending (m_postMine (fst ?st1)))"
    by simp
  from Cons.IH [OF this] obtain st' where
    run: "pending_receipts W (Suc i) rs ?st1 = Inr st'"
    and fs: "m_filters (fst st') =
         map (\<lambda>(k, f). (k, pending_accumulate W (bc_number (m_bc (fst ?st1)))
                             (zip (drop (Suc i) (pending (m_postMine (fst ?st1)))) rs) f))
           (m_filters (fst ?st1))"
    and rest: "m_postMine (fst st') = m_postMine (fst ?st1)" "m_bc (fst st') = m_bc (fst ?st1)"
      "m_tq (fst st') = m_tq (fst ?st1)" "m_watches (fst st') = m_watches (fst ?st1)"
      "m_lastGarbageCollection (fst st') = m_lastGarbageCollection (fst ?st1)"
    by blast
  have dropi: "drop i ?ps = ?ps ! i # drop (Suc i) ?ps"
    using i by (simp add: Cons_nth_drop_Suc)
  have "m_filters (fst st') =
         map (\<lambda>(k, f). (k, pending_accumulate W (bc_number (m_bc (fst st)))
                             (zip (drop i ?ps) (r # rs)) f))
           (m_filters (fst st))"
    unfolding fs appendFromNewPending_filters dropi
    using frame by (simp add: case_prod_beta pending_accumulate_append o_def)
  with run rest frame i show ?case by simp
qed


subsection \<open>What the phases of a pass leave alone\<close>

lemma doWork_sync_tq:
  assumes "bc_sync W (m_bc c) = ((fresh, dead, sgw), bc')"
  shows "m_tq (fst (doWork_sync W (c, l))) =
           m_tq c @ map Import (concat (map (transactions bc') dead))
                  @ map Drop (concat (map (transactionHashes bc') fresh))
         \<and> m_lastGarbageCollection (fst (doWork_sync W (c, l))) = m_lastGarbageCollection c"
proof -
  let ?c3 = "c\<lparr>m_bc := bc',
               m_tq := m_tq c @ map Import (concat (map (transactions bc') dead))
                        @ map Drop (concat (map (transactionHashes bc') fresh))\<rparr>"
  let ?l3 = "l\<lparr>stillGotWork := (stillGotWork l \<or> sgw)\<rparr>"
  have "untouched (fst (?c3, ?l3)) (fst (foldl (\<lambda>st' i. appendFromNewBlock W i st') (?c3, ?l3) fresh))"
    by (rule foldl_untouched) (rule appendFromNewBlock_untouched)
  then show ?thesis
    by (simp add: doWork_sync_def assms Let_def case_prod_beta untouched_def
        resubmit_dead_calls drop_fresh_calls)
qed

lemma doWork_sync_frame:
  "m_lastGarbageCollection (fst (doWork_sync W (c, l))) = m_lastGarbageCollection c
   \<and> polls (m_watches (fst (doWork_sync W (c, l)))) = polls (m_watches c)"
proof -
  obtain fresh dead sgw bc' where s: "bc_sync W (m_bc c) = ((fresh, dead, sgw), bc')"
    by (metis prod.exhaust)
  let ?c3 = "c\<lparr>m_bc := bc',
               m_tq := m_tq c @ map Import (concat (map (transactions bc') dead))
                        @ map Drop (concat (map (transactionHashes bc') fresh))\<rparr>"
  let ?l3 = "l\<lparr>stillGotWork := (stillGotWork l \<or> sgw)\<rparr>"
  have "untouched (fst (?c3, ?l3)) (fst (foldl (\<lambda>st' i. appendFromNewBlock W i st') (?c3, ?l3) fresh))"
    by (rule foldl_untouched) (rule appendFromNewBlock_untouched)
  then show ?thesis
    by (simp add: doWork_sync_def s Let_def case_prod_beta untouched_def
        resubmit_dead_calls drop_fresh_calls)
qed

lemma doWork_resync_untouched: "untouched (fst st) (fst (doWork_resync W st))"
  by (simp add: doWork_resync_def untouched_def Let_def case_prod_beta)

lemma pending_receipts_untouched:
  "pending_receipts W i rs st = Inr st' \<Longrightarrow> untouched (fst st) (fst st')"
proof (induction rs arbitrary: i st)
  case Nil
  then show ?case by (simp add: untouched_refl)
next
  case (Cons r rs)
  let ?st1 = "appendFromNewPending W r (sha3 (pending (m_postMine (fst st)) ! i)) st"
  from Cons.prems have run: "pending_receipts W (i + 1) rs ?st1 = Inr st'"
    by (simp split: if_splits)
  have "untouched (fst st) (fst ?st1)"
    using appendFromNewPending_frame [of W r "sha3 (pending (m_postMine (fst st)) ! i)" st]
    by (simp add: untouched_def)
  with Cons.IH [OF run] show ?case
    by (rule untouched_trans [rotated])
qed

lemma host_call_untouched: "untouched c (host_call x c)"
  by (simp add: host_call_def untouched_def split: option.splits)

lemma doWork_pending_tq:
  assumes "doWork_pending W (c, l) = Inr st'"
  shows "m_tq (fst st') = m_tq c @ snd (snd (State_sync_tq W (m_bc c) (m_tq c) (m_postMine c)))
         \<and> m_lastGarbageCollection (fst st') = m_lastGarbageCollection c"
proof -
  obtain rs post calls where sync: "State_sync_tq W (m_bc c) (m_tq c) (m_postMine c) = (rs, post, calls)"
    by (metis prod.exhaust)
  let ?c1 = "c\<lparr>m_postMine := post, m_tq := m_tq c @ calls\<rparr>"
  show ?thesis
  proof (cases "rs = []")
    case True
    with assms sync show ?thesis
      by (auto simp: doWork_pending_def)
  next
    case False
    with assms sync obtain c2 l2 where
      run: "pending_receipts W 0 rs (?c1, l) = Inr (c2, l2)"
      and st': "st' = (host_call NoteNewTransactions c2,
                     l2\<lparr>changeds := insert (PendingChangedFilter W) (changeds l2),
                        resyncStateNeeded := True\<rparr>)"
      by (auto simp: doWork_pending_def split: sum.splits)
    from pending_receipts_untouched [OF run] host_call_untouched [of c2 NoteNewTransactions]
    show ?thesis
      by (simp add: st' sync untouched_def)
  qed
qed

lemma doWork_pending_frame:
  assumes "doWork_pending W (c, l) = Inr st'"
  shows "m_lastGarbageCollection (fst st') = m_lastGarbageCollection c
         \<and> polls (m_watches (fst st')) = polls (m_watches c)"
proof -
  obtain rs post calls where sync: "State_sync_tq W (m_bc c) (m_tq c) (m_postMine c) = (rs, post, calls)"
    by (metis prod.exhaust)
  let ?c1 = "c\<lparr>m_postMine := post, m_tq := m_tq c @ calls\<rparr>"
  show ?thesis
  proof (cases "rs = []")
    case True
    with assms sync show ?thesis
      by (auto simp: doWork_pending_def)
  next
    case False
    with assms sync obtain c2 l2 where
      run: "pending_receipts W 0 rs (?c1, l) = Inr (c2, l2)"
      and st': "st' = (host_call NoteNewTransactions c2,
                     l2\<lparr>changeds := insert (PendingChangedFilter W) (changeds l2),
                        resyncStateNeeded := True\<rparr>)"
      by (auto simp: doWork_pending_def split: sum.splits)
    from pending_receipts_untouched [OF run] host_call_untouched [of c2 NoteNewTransactions]
    show ?thesis
      by (simp add: st' untouched_def)
  qed
qed

lemma noteChanged_untouched: "untouched c (noteChanged W fs c)"
  by (simp add: noteChanged_def untouched_def polls_def case_prod_beta o_def
      split: option.splits)

lemma doWork_notify_untouched: "untouched (fst st) (doWork_notify W st)"
proof -
  obtain c l where st: "st = (c, l)" by (cases st)
  define c1 where "c1 = (if changeds l \<noteq> {} then host_call NoteNewBlocks c else c)"
  define c2 where "c2 = (if resyncStateNeeded l
                then c1\<lparr>m_localMiners := map noteStateChange (m_localMiners c1)\<rparr>
                else c1)"
  have "untouched c c1"
    by (simp add: c1_def host_call_untouched untouched_refl)
  moreover have "untouched c1 c2"
    by (simp add: c2_def untouched_def)
  moreover have "untouched c2 (noteChanged W (changeds l) c2)"
    by (rule noteChanged_untouched)
  moreover have "doWork_notify W st = noteChanged W (changeds l) c2"
    by (simp add: doWork_notify_def st c1_def c2_def Let_def)
  ultimately show ?thesis
    by (simp add: st) (blast intro: untouched_trans)
qed

lemma uninstallWatch_tq: "m_tq (uninstallWatch key c) = m_tq c"
  by (simp add: uninstallWatch_def Let_def split: option.splits)

lemma foldl_uninstallWatch_tq: "m_tq (foldl (\<lambda>c' i. uninstallWatch i c') c ks) = m_tq c"
  by (induction ks arbitrary: c) (simp_all add: uninstallWatch_tq)

lemma doWork_gc_tq: "m_tq (doWork_gc W c) = m_tq c"
  by (simp add: doWork_gc_def Let_def foldl_uninstallWatch_tq)


subsection \<open>Garbage collection of watches\<close>

lemma uninstallWatch_watches:
  "m_watches (uninstallWatch key c) = filter (\<lambda>(k, _). k \<noteq> key) (m_watches c)"
proof (cases "map_of (m_watches c) key")
  case None
  then have "key \<notin> fst ` set (m_watches c)"
    by (simp add: map_of_eq_None_iff)
  then have "filter (\<lambda>(k, _). k \<noteq> key) (m_watches c) = m_watches c"
    by (force simp: filter_id_conv)
  with None show ?thesis
    by (simp add: uninstallWatch_def)
next
  case (Some w)
  then show ?thesis
    by (simp add: uninstallWatch_def Let_def split: option.splits)
qed

lemma uninstallWatch_stamp:
  "m_lastGarbageCollection (uninstallWatch key c) = m_lastGarbageCollection c"
  by (simp add: uninstallWatch_def Let_def split: option.splits)

lemma foldl_uninstallWatch:
  "m_watches (foldl (\<lambda>c' i. uninstallWatch i c') c ks) =
     filter (\<lambda>(k, _). k \<notin> set ks) (m_watches c)
   \<and> m_lastGarbageCollection (foldl (\<lambda>c' i. uninstallWatch i c') c ks)
       = m_lastGarbageCollection c"
proof (induction ks arbitrary: c)
  case Nil
  show ?case by simp
next
  case (Cons k ks)
  have "filter (\<lambda>(k', _). k' \<notin> set ks) (filter (\<lambda>(k', _). k' \<noteq> k) (m_watches c))
        = filter (\<lambda>(k', _). k' \<notin> set (k # ks)) (m_watches c)"
    by (induction "m_watches c") (auto simp: case_prod_beta intro: filter_cong)
  with Cons [of "uninstallWatch k c"] show ?case
    by (simp add: uninstallWatch_watches uninstallWatch_stamp)
qed

lemma gc_scan_keys: "gc_scan W ws = map fst (filter (\<lambda>(key, w). expired W key w) ws)"
  by (induction ws) auto

lemma gc_scan_removes:
  assumes "distinct (map fst ws)"
  shows "filter (\<lambda>(k, _). k \<notin> set (gc_scan W ws)) ws = filter (\<lambda>(key, w). \<not> expired W key w) ws"
proof (rule filter_cong [OF refl])
  fix x assume x: "x \<in> set ws"
  obtain k w where kw: "x = (k, w)" by (cases x)
  have "k \<in> set (gc_scan W ws) \<longleftrightarrow> expired W k w"
  proof
    assume "k \<in> set (gc_scan W ws)"
    then obtain w' where w': "(k, w') \<in> set ws" "expired W k w'"
      by (auto simp: gc_scan_keys)
    from assms x w'(1) have "w' = w"
      unfolding kw by (meson eq_key_imp_eq_value)
    with w'(2) show "expired W k w" by simp
  next
    assume "expired W k w"
    with x show "k \<in> set (gc_scan W ws)"
      unfolding kw gc_scan_keys by force
  qed
  then show "(case x of (k, _) \<Rightarrow> k \<notin> set (gc_scan W ws)) = (case x of (key, w) \<Rightarrow> \<not> expired W key w)"
    by (simp add: kw)
qed

lemma doWork_gc_watches:
  assumes "distinct (map fst (m_watches c))"
  shows "m_watches (doWork_gc W c) =
     (if gc_due W c then filter (\<lambda>(key, w). \<not> expired W key w) (m_watches c) else m_watches c)"
  using gc_scan_removes [OF assms, of W]
  by (simp add: doWork_gc_def Let_def foldl_uninstallWatch)

lemma doWork_gc_stamp:
  "m_lastGarbageCollection (doWork_gc W c) =
     (if gc_due W c then now_done W else m_lastGarbageCollection c)"
  by (simp add: doWork_gc_def Let_def)

lemma doWork_untouched_before_gc:
  assumes "doWork W c = Inr c'"
  shows "\<exists>c4. c' = doWork_gc W c4 \<and> m_lastGarbageCollection c4 = m_lastGarbageCollection c
              \<and> polls (m_watches c4) = polls (m_watches c)"
proof -
  let ?st0 = "(c, \<lparr>stillGotWork = False, changeds = {}, resyncStateNeeded = False\<rparr>)"
  let ?st1 = "doWork_miners W ?st0"
  let ?st2 = "doWork_sync W ?st1"
  let ?st3 = "doWork_resync W ?st2"
  from assms obtain st4 where p: "doWork_pending W ?st3 = Inr st4"
    and c': "c' = doWork_gc W (doWork_notify W st4)"
    by (auto simp: doWork_def Let_def split: sum.splits)
  have u1: "untouched c (fst ?st1)"
    using doWork_miners_untouched [of ?st0 W] by simp
  obtain fresh dead sgw bc' where s: "bc_sync W (m_bc (fst ?st1)) = ((fresh, dead, sgw), bc')"
    by (metis prod.exhaust)
  have u2: "m_lastGarbageCollection (fst ?st2) = m_lastGarbageCollection (fst ?st1)
            \<and> polls (m_watches (fst ?st2)) = polls (m_watches (fst ?st1))"
    using doWork_sync_frame [of W "fst ?st1" "snd ?st1"] by simp
  have u3: "untouched (fst ?st2) (fst ?st3)"
    by (rule doWork_resync_untouched)
  have u4: "m_lastGarbageCollection (fst st4) = m_lastGarbageCollection (fst ?st3)
            \<and> polls (m_watches (fst st4)) = polls (m_watches (fst ?st3))"
    using doWork_pending_frame [of W "fst ?st3" "snd ?st3" st4] p by simp
  have u5: "untouched (fst st4) (doWork_notify W st4)"
    by (rule doWork_notify_untouched)
  from u1 u2 u3 u4 u5 have "m_lastGarbageCollection (doWork_notify W st4) = m_lastGarbageCollection c
      \<and> polls (m_watches (doWork_notify W st4)) = polls (m_watches c)"
    by (simp add: untouched_def)
  with c' show ?thesis by blast
qed

lemma doWork_stamp:
  assumes "doWork W c = Inr c'"
  shows "m_lastGarbageCollection c' =
     (if gc_due W c then now_done W else m_lastGarbageCollection c)"
proof -
  from doWork_untouched_before_gc [OF assms] obtain c4 where
    "c' = doWork_gc W c4" "m_lastGarbageCollection c4 = m_lastGarbageCollection c"
    by blast
  then show ?thesis
    by (simp add: doWork_gc_stamp gc_due_def)
qed

lemma polls_keys: "map fst (polls ws) = map fst ws"
  by (simp add: polls_def case_prod_beta o_def)

lemma polls_filter:
  "polls (filter (\<lambda>(key, w). \<not> expired W key w) ws) =
     filter (\<lambda>(key, t). \<not> (t \<noteq> time_point_max \<and> seconds 20 <s now_poll W key - t)) (polls ws)"
  by (induction ws) (auto simp: polls_def expired_def)

lemma doWork_watches:
  assumes "doWork W c = Inr c'" and "distinct (map fst (m_watches c))"
  shows "polls (m_watches c') =
     (if gc_due W c
      then filter (\<lambda>(key, t). \<not> (t \<noteq> time_point_max \<and> seconds 20 <s now_poll W key - t))
             (polls (m_watches c))
      else polls (m_watches c))"
proof -
  from doWork_untouched_before_gc [OF assms(1)] obtain c4 where
    c': "c' = doWork_gc W c4" and stamp: "m_lastGarbageCollection c4 = m_lastGarbageCollection c"
    and ps: "polls (m_watches c4) = polls (m_watches c)"
    by blast
  from ps have "map fst (m_watches c4) = map fst (m_watches c)"
    by (metis polls_keys)
  with assms(2) have "distinct (map fst (m_watches c4))" by simp
  from doWork_gc_watches [OF this, of W] stamp ps show ?thesis
    by (simp add: c' gc_due_def polls_filter)
qed

text \<open>
  Between time points at or after the epoch the machine's subtraction does not wrap, so
  the tests of the collection compare the true numbers of nanoseconds.
\<close>

lemma sint_diff_after_epoch:
  fixes a b :: time_point
  assumes "after_epoch a" and "after_epoch b"
  shows "sint (a - b) = sint a - sint b"
proof -
  have "sint a < 2 ^ 63" and "sint b < 2 ^ 63"
    using sint_lt [of a] sint_lt [of b] by simp_all
  with assms have "- (2 ^ 63) \<le> sint a - sint b" and "sint a - sint b < 2 ^ 63"
    by (simp_all add: after_epoch_def)
  then show ?thesis
    by (simp add: sint_word_diff signed_take_bit_int_eq_self)
qed

lemma sint_seconds: "sint (seconds 5) = ns 5" "sint (seconds 20) = ns 20"
  by (simp_all add: seconds_def ns_def)

lemma elapsed_after_epoch:
  fixes a b :: time_point
  assumes "after_epoch a" and "after_epoch b"
  shows "(seconds 5 <s a - b) = (ns 5 < sint a - sint b)"
    and "(seconds 20 <s a - b) = (ns 20 < sint a - sint b)"
  by (simp_all add: word_sless_alt sint_seconds sint_diff_after_epoch [OF assms])

text \<open>
  Before the epoch the subtraction can wrap: a watch whose \<^verbatim>\<open>lastPoll\<close> is
  \<^verbatim>\<open>time_point::min()\<close> is not found expired at 25 s, the difference having wrapped to a
  negative count.
\<close>

lemma expired_wraps:
  "\<not> expired (world_at 25) key \<lparr>id_w = 7, changes_w = [], lastPoll = - (2 ^ 63)\<rparr>"
  by (simp add: expired_def world_at_def seconds_def ns_def word_sless_alt)

lemma gc_due_after_epoch:
  assumes "after_epoch (now_gc W)" and "after_epoch (m_lastGarbageCollection c)"
  shows "gc_due W c = (ns 5 < sint (now_gc W) - sint (m_lastGarbageCollection c))"
  by (simp add: gc_due_def elapsed_after_epoch [OF assms])

lemma gc_runs_spaced:
  assumes "\<forall>W \<in> set Ws. after_epoch (now_gc W) \<and> sint (now_gc W) \<le> sint (now_done W)"
    and "after_epoch (m_lastGarbageCollection c)"
  shows "sorted_wrt (\<lambda>a b. ns 5 < sint b - sint a) (gc_runs Ws c)
         \<and> (\<forall>t \<in> set (gc_runs Ws c). ns 5 < sint t - sint (m_lastGarbageCollection c))"
  using assms
proof (induction Ws arbitrary: c)
  case Nil
  show ?case by simp
next
  case (Cons W Ws)
  show ?case
  proof (cases "doWork W c")
    case (Inl e)
    then show ?thesis by simp
  next
    case (Inr c')
    from Cons.prems have epoch: "after_epoch (now_gc W)"
      and mono: "sint (now_gc W) \<le> sint (now_done W)"
      and rest: "\<forall>W \<in> set Ws. after_epoch (now_gc W) \<and> sint (now_gc W) \<le> sint (now_done W)"
      and prev: "after_epoch (m_lastGarbageCollection c)"
      by simp_all
    from epoch mono have stamped: "after_epoch (now_done W)"
      by (simp add: after_epoch_def)
    note stamp = doWork_stamp [OF Inr]
    note due = gc_due_after_epoch [OF epoch prev]
    show ?thesis
    proof (cases "gc_due W c")
      case True
      with stamp have c': "m_lastGarbageCollection c' = now_done W" by simp
      note ih = Cons.IH [OF rest, of c', unfolded c', OF stamped]
      from True due have gap: "ns 5 < sint (now_gc W) - sint (m_lastGarbageCollection c)"
        by simp
      have pos: "0 < ns 5" by (simp add: ns_def)
      from ih mono have later: "\<forall>t \<in> set (gc_runs Ws c'). ns 5 < sint t - sint (now_gc W)"
        by auto
      with gap pos have "\<forall>t \<in> set (gc_runs Ws c'). ns 5 < sint t - sint (m_lastGarbageCollection c)"
        by auto
      with ih later gap True Inr show ?thesis by simp
    next
      case False
      with stamp have c': "m_lastGarbageCollection c' = m_lastGarbageCollection c" by simp
      note ih = Cons.IH [OF rest, of c', unfolded c', OF prev]
      with False Inr show ?thesis by simp
    qed
  qed
qed

subsection \<open>One pass\<close>

lemma doWork_returns:
  assumes "\<And>bc tq s. fst (State_sync_tq W bc tq s) = []"
  shows "\<exists>c'. doWork W c = Inr c'"
proof -
  have "\<exists>st'. doWork_pending W st = Inr st'" for st
    using assms [of "m_bc (fst st)" "m_tq (fst st)" "m_postMine (fst st)"]
    by (cases "State_sync_tq W (m_bc (fst st)) (m_tq (fst st)) (m_postMine (fst st))")
       (auto simp: doWork_pending_def case_prod_beta Let_def)
  then show ?thesis
    by (metis (no_types, lifting) doWork_def sum.simps(6))
qed

text \<open>
  C1. Take a pass that completes and whose chain-store sync reports \<open>(fresh, dead)\<close>.
  Afterwards every transaction of every dead block has been imported into the transaction
  queue and every transaction hash of every fresh block has been dropped from it: the
  calls made on the queue during the pass are the imports of the dead blocks'
  transactions, then the drops of the fresh blocks' hashes, then whatever the later
  \<^verbatim>\<open>State::sync\<close> calls.
\<close>

theorem doWork_reorg_transactions:
  assumes "doWork_miners W (c, \<lparr>stillGotWork = False, changeds = {}, resyncStateNeeded = False\<rparr>)
           = (c1, l1)"
    and "bc_sync W (m_bc c1) = ((fresh, dead, sgw), bc')"
    and "doWork W c = Inr c'"
  shows "(\<forall>h \<in> set dead. \<forall>t \<in> set (transactions bc' h). Import t \<in> set (m_tq c'))
     \<and> (\<forall>h \<in> set fresh. \<forall>th \<in> set (transactionHashes bc' h). Drop th \<in> set (m_tq c'))
     \<and> (\<exists>later. m_tq c' =
           m_tq c @ map Import (concat (map (transactions bc') dead))
                  @ map Drop (concat (map (transactionHashes bc') fresh)) @ later)"
proof -
  let ?st0 = "(c, \<lparr>stillGotWork = False, changeds = {}, resyncStateNeeded = False\<rparr>)"
  let ?st2 = "doWork_sync W (c1, l1)"
  let ?st3 = "doWork_resync W ?st2"
  from assms(1,3) obtain st4 where p: "doWork_pending W ?st3 = Inr st4"
    and c': "c' = doWork_gc W (doWork_notify W st4)"
    by (auto simp: doWork_def Let_def split: sum.splits)
  have t1: "m_tq c1 = m_tq c"
    using doWork_miners_untouched [of ?st0 W] assms(1) by (simp add: untouched_def)
  have t2: "m_tq (fst ?st2) = m_tq c1 @ map Import (concat (map (transactions bc') dead))
                  @ map Drop (concat (map (transactionHashes bc') fresh))"
    using doWork_sync_tq [OF assms(2)] by simp
  have t3: "m_tq (fst ?st3) = m_tq (fst ?st2)"
    using doWork_resync_untouched [of ?st2 W] by (simp add: untouched_def)
  obtain later where t4: "m_tq (fst st4) = m_tq (fst ?st3) @ later"
    using doWork_pending_tq [of W "fst ?st3" "snd ?st3" st4] p by simp
  have t5: "m_tq c' = m_tq (fst st4)"
    using doWork_notify_untouched [of st4 W] by (simp add: c' doWork_gc_tq untouched_def)
  have eq: "m_tq c' = m_tq c @ map Import (concat (map (transactions bc') dead))
                  @ map Drop (concat (map (transactionHashes bc') fresh)) @ later"
    by (simp add: t1 t2 t3 t4 t5)
  have "\<forall>h \<in> set dead. \<forall>t \<in> set (transactions bc' h). Import t \<in> set (m_tq c')"
    unfolding eq by auto
  moreover have "\<forall>h \<in> set fresh. \<forall>th \<in> set (transactionHashes bc' h). Drop th \<in> set (m_tq c')"
    unfolding eq by auto
  ultimately show ?thesis
    using eq by blast
qed

text \<open>
  Block 1, with both transactions, is dead and block 2, with the second, is fresh: both
  are imported and the hash of the second is dropped.
\<close>

theorem doWork_reorg_transactions_witness:
  "\<exists>c'. doWork world_reorg client1 = Inr c'
        \<and> Import tx1 \<in> set (m_tq c') \<and> Import tx2 \<in> set (m_tq c') \<and> Drop 12 \<in> set (m_tq c')"
proof -
  obtain c' where pass: "doWork world_reorg client1 = Inr c'"
    using doWork_returns [of world_reorg client1] by (auto simp: world_reorg_def world0_def)
  have miners: "doWork_miners world_reorg
        (client1, \<lparr>stillGotWork = False, changeds = {}, resyncStateNeeded = False\<rparr>)
      = (client1, \<lparr>stillGotWork = False, changeds = {}, resyncStateNeeded = False\<rparr>)"
    by (simp add: doWork_miners_def maintainMiner_def client1_def freshMiner_def)
  have sync: "bc_sync world_reorg (m_bc client1) = (([2], [1], False), chain2)"
    by (simp add: world_reorg_def world0_def client1_def)
  from doWork_reorg_transactions [OF miners sync pass]
  have "Import tx1 \<in> set (m_tq c') \<and> Import tx2 \<in> set (m_tq c') \<and> Drop 12 \<in> set (m_tq c')"
    by (simp add: chain2_def)
  with pass show ?thesis by blast
qed

text \<open>
  What the fourth phase does to the filters, whatever \<^verbatim>\<open>State::sync\<close> returns (as long as
  the pending list is not shorter than the receipts): every filter whose range envelops
  the pending block gains, for the receipt at position \<open>i\<close>, one entry per log entry of
  the receipt that the filter matches, with number \<^verbatim>\<open>m_bc.number() + 1\<close> and the hash of
  the transaction at position \<open>i\<close> of the whole pending list.
\<close>

lemma doWork_pending_filters:
  assumes "State_sync_tq W (m_bc c) (m_tq c) (m_postMine c) = (newPendingReceipts, post, calls)"
    and "length newPendingReceipts \<le> length (pending post)"
  shows "\<exists>c' l'. doWork_pending W (c, l) = Inr (c', l')
     \<and> m_filters c' =
         map (\<lambda>(k, i).
               (k, if envelops W (filter_f i) Pending (unat (bc_number (m_bc c) + 1))
                   then i\<lparr>changes := changes i @
                          concat (map (\<lambda>(tx, r).
                                    map (\<lambda>l. \<lparr>entry = l, lle_number = bc_number (m_bc c) + 1,
                                              transactionHash = sha3 tx\<rparr>)
                                      (matches W (filter_f i) r))
                                  (zip (pending post) newPendingReceipts))\<rparr>
                   else i))
           (m_filters c)"
proof -
  let ?c1 = "c\<lparr>m_postMine := post, m_tq := m_tq c @ calls\<rparr>"
  have acc: "(\<lambda>(k, i).
               (k, if envelops W (filter_f i) Pending (unat (bc_number (m_bc c) + 1))
                   then i\<lparr>changes := changes i @
                          concat (map (\<lambda>(tx, r).
                                    map (\<lambda>l. \<lparr>entry = l, lle_number = bc_number (m_bc c) + 1,
                                              transactionHash = sha3 tx\<rparr>)
                                      (matches W (filter_f i) r))
                                  (zip (pending post) newPendingReceipts))\<rparr>
                   else i))
      = (\<lambda>(k, i). (k, pending_accumulate W (bc_number (m_bc c))
                        (zip (pending post) newPendingReceipts) i))"
    unfolding pending_accumulate_def pending_entries_def ..
  show ?thesis
  proof (cases "newPendingReceipts = []")
    case True
    then show ?thesis
      unfolding acc by (simp add: doWork_pending_def assms(1) pending_accumulate_Nil)
  next
    case False
    have "0 + length newPendingReceipts \<le> length (pending (m_postMine (fst (?c1, l))))"
      using assms(2) by simp
    from pending_receipts_filters [OF this, of W] obtain st' where
      run: "pending_receipts W 0 newPendingReceipts (?c1, l) = Inr st'"
      and fs: "m_filters (fst st') =
         map (\<lambda>(k, f). (k, pending_accumulate W (bc_number (m_bc c))
                             (zip (pending post) newPendingReceipts) f))
           (m_filters c)"
      by auto
    obtain c2 l2 where st': "st' = (c2, l2)" by (cases st')
    have "m_filters (host_call NoteNewTransactions c2) = m_filters c2"
      by (simp add: host_call_def split: option.splits)
    with False run fs st' show ?thesis
      unfolding acc by (simp add: doWork_pending_def assms(1))
  qed
qed


text \<open>
  When \<^verbatim>\<open>State::sync\<close> appends the newly applied transactions to a pending list that
  holds \<open>old\<close> from earlier passes, the receipts of the newly applied transactions are
  paired with the transactions of \<open>old @ new\<close> from its start, not with the new ones.
\<close>

lemma doWork_pending_after_earlier_pass:
  assumes "State_sync_tq W = sync_applying applied"
  shows "\<exists>c' l'. doWork_pending W (c, l) = Inr (c', l')
     \<and> m_filters c' =
         map (\<lambda>(k, i). (k, pending_accumulate W (bc_number (m_bc c))
                           (zip (pending (m_postMine c) @ map fst applied) (map snd applied)) i))
           (m_filters c)"
proof -
  let ?post = "(m_postMine c)\<lparr>pending := pending (m_postMine c) @ map fst applied\<rparr>"
  have sync: "State_sync_tq W (m_bc c) (m_tq c) (m_postMine c)
      = (map snd applied, ?post, map (\<lambda>(tx, r). NoteGood (sha3 tx)) applied)"
    by (simp add: assms sync_applying_def)
  have len: "length (map snd applied) \<le> length (pending ?post)"
    by simp
  have p: "pending ?post = pending (m_postMine c) @ map fst applied"
    by simp
  from doWork_pending_filters [OF sync len, of l, unfolded p] show ?thesis
    unfolding pending_accumulate_def pending_entries_def .
qed

text \<open>
  C4 fails on the code. The first pass newly applies the first transaction (hash 11, its
  receipt holds the log entry 8), the second pass the second transaction (hash 12, log
  entry 9); the pending state is kept between the passes, so in the second pass
  \<^verbatim>\<open>pending()\<close> is both transactions and \<^verbatim>\<open>newPendingReceipts\<close> the one new receipt. The
  loop passes the hash of \<^verbatim>\<open>pending()[0]\<close>: the watch on the filter receives the entry for
  the log entry 9 with the hash 11 of the first transaction, not the hash 12 of the
  transaction that produced it. (The block number, 3 on a head of number 2, is right.)
\<close>

theorem doWork_pending_wrong_hash:
  "(case doWork_twice world_tx1 world_tx2 client1 of
      Inl e \<Rightarrow> None
    | Inr c2 \<Rightarrow> Some (pending (m_postMine c2), map_option changes_w (map_of (m_watches c2) 1)))
   = Some ([tx1, tx2],
           Some [\<lparr>entry = 8, lle_number = 3, transactionHash = 11\<rparr>,
                 \<lparr>entry = 9, lle_number = 3, transactionHash = 11\<rparr>])
   \<and> sha3 tx1 = 11 \<and> sha3 tx2 = 12"
proof -
  have "(case doWork_twice world_tx1 world_tx2 client1 of
      Inl e \<Rightarrow> None
    | Inr c2 \<Rightarrow> Some (pending (m_postMine c2), map_option changes_w (map_of (m_watches c2) 1)))
   = Some ([tx1, tx2],
           Some [\<lparr>entry = 8, lle_number = 3, transactionHash = 11\<rparr>,
                 \<lparr>entry = 9, lle_number = 3, transactionHash = 11\<rparr>])"
    by code_simp
  then show ?thesis
    by (simp add: tx1_def tx2_def)
qed

lemma gc_runs_step:
  assumes "\<And>bc tq s. fst (State_sync_tq W bc tq s) = []"
  shows "\<exists>c'. m_lastGarbageCollection c' =
            (if gc_due W c then now_done W else m_lastGarbageCollection c)
        \<and> gc_runs (W # Ws) c = (if gc_due W c then now_gc W # gc_runs Ws c' else gc_runs Ws c')"
proof -
  from doWork_returns [OF assms] obtain c' where pass: "doWork W c = Inr c'"
    by blast
  from doWork_stamp [OF pass] pass show ?thesis
    by (intro exI [of _ c']) simp
qed

lemma world_at_quiet: "fst (State_sync_tq (world_at t) bc tq s) = []"
  by (simp add: world_at_def world0_def)

lemma world_at_clock:
  "now_gc (world_at t) = seconds t" "now_done (world_at t) = seconds t"
  "now_poll (world_at t) key = seconds t"
  by (simp_all add: world_at_def)

lemma gc_runs_example:
  "gc_runs [world_at 25, world_at 27, world_at 31] client1 = [seconds 25, seconds 31]"
proof -
  have d1: "gc_due (world_at 25) client1"
    by (simp add: gc_due_def world_at_clock client1_def seconds_def ns_def word_sless_alt)
  from gc_runs_step [OF world_at_quiet, of 25 client1 "[world_at 27, world_at 31]"] d1
  obtain c1 where c1: "m_lastGarbageCollection c1 = seconds 25"
    and r1: "gc_runs [world_at 25, world_at 27, world_at 31] client1
             = seconds 25 # gc_runs [world_at 27, world_at 31] c1"
    by (auto simp: world_at_clock simp del: gc_runs.simps)
  have d2: "\<not> gc_due (world_at 27) c1"
    by (simp add: gc_due_def world_at_clock c1 seconds_def ns_def word_sless_alt)
  from gc_runs_step [OF world_at_quiet, of 27 c1 "[world_at 31]"] d2
  obtain c2 where c2: "m_lastGarbageCollection c2 = seconds 25"
    and r2: "gc_runs [world_at 27, world_at 31] c1 = gc_runs [world_at 31] c2"
    by (auto simp: world_at_clock c1 simp del: gc_runs.simps)
  have d3: "gc_due (world_at 31) c2"
    by (simp add: gc_due_def world_at_clock c2 seconds_def ns_def word_sless_alt)
  from gc_runs_step [OF world_at_quiet, of 31 c2 "[]"] d3
  have r3: "gc_runs [world_at 31] c2 = [seconds 31]"
    by (auto simp: world_at_clock simp del: gc_runs.simps(2))
  show ?thesis by (simp only: r1 r2 r3)
qed

text \<open>
  C6. Let the time points involved (the clock's readings, the \<^verbatim>\<open>lastPoll\<close>s, of which
  \<^verbatim>\<open>time_point::max()\<close> is one, and \<^verbatim>\<open>m_lastGarbageCollection\<close>) be at or after the
  clock's epoch. In a pass that completes, the watch collection runs iff the clock is more
  than 5 s past \<^verbatim>\<open>m_lastGarbageCollection\<close>, which it then sets to the clock's reading;
  so of a sequence of passes (the clock not running backwards between the guard and the
  stamp of a pass), any two in which the collection ran are more than 5 s apart. When it
  runs it removes exactly the watches whose \<^verbatim>\<open>lastPoll\<close> is set (is not
  \<^verbatim>\<open>time_point::max()\<close>) and lies more than 20 s before the clock's reading when the watch
  is examined; a watch within 20 s of its last poll, or whose \<^verbatim>\<open>lastPoll\<close> is not set,
  stays.
\<close>

theorem watch_garbage_collection:
  assumes "doWork W c = Inr c'" and "distinct (map fst (m_watches c))"
    and "after_epoch (now_gc W)" and "after_epoch (m_lastGarbageCollection c)"
    and "\<forall>(key, t) \<in> set (polls (m_watches c)). after_epoch t \<and> after_epoch (now_poll W key)"
  shows "polls (m_watches c') =
       (if ns 5 < sint (now_gc W) - sint (m_lastGarbageCollection c)
        then filter (\<lambda>(key, t). \<not> (t \<noteq> time_point_max \<and> ns 20 < sint (now_poll W key) - sint t))
               (polls (m_watches c))
        else polls (m_watches c))
     \<and> (\<forall>(key, t) \<in> set (polls (m_watches c)).
          t = time_point_max \<or> sint (now_poll W key) - sint t \<le> ns 20
          \<longrightarrow> (key, t) \<in> set (polls (m_watches c')))
     \<and> m_lastGarbageCollection c' =
       (if ns 5 < sint (now_gc W) - sint (m_lastGarbageCollection c) then now_done W
        else m_lastGarbageCollection c)
     \<and> (\<forall>Ws. (\<forall>W' \<in> set Ws. after_epoch (now_gc W') \<and> sint (now_gc W') \<le> sint (now_done W'))
          \<longrightarrow> sorted_wrt (\<lambda>a b. ns 5 < sint b - sint a) (gc_runs Ws c))"
proof -
  note due = gc_due_after_epoch [OF assms(3,4)]
  have same: "filter (\<lambda>(key, t). \<not> (t \<noteq> time_point_max \<and> seconds 20 <s now_poll W key - t))
               (polls (m_watches c))
      = filter (\<lambda>(key, t). \<not> (t \<noteq> time_point_max \<and> ns 20 < sint (now_poll W key) - sint t))
               (polls (m_watches c))"
  proof (rule filter_cong [OF refl])
    fix x assume x: "x \<in> set (polls (m_watches c))"
    obtain key t where kt: "x = (key, t)" by (cases x)
    from assms(5) x kt have "after_epoch t" "after_epoch (now_poll W key)"
      by auto
    from elapsed_after_epoch(2) [OF this(2) this(1)]
    show "(case x of (key, t) \<Rightarrow> \<not> (t \<noteq> time_point_max \<and> seconds 20 <s now_poll W key - t))
        = (case x of (key, t) \<Rightarrow> \<not> (t \<noteq> time_point_max \<and> ns 20 < sint (now_poll W key) - sint t))"
      by (simp add: kt)
  qed
  have ws: "polls (m_watches c') =
       (if ns 5 < sint (now_gc W) - sint (m_lastGarbageCollection c)
        then filter (\<lambda>(key, t). \<not> (t \<noteq> time_point_max \<and> ns 20 < sint (now_poll W key) - sint t))
               (polls (m_watches c))
        else polls (m_watches c))"
    by (rule doWork_watches [OF assms(1,2), unfolded due same])
  have kept: "\<forall>(key, t) \<in> set (polls (m_watches c)).
          t = time_point_max \<or> sint (now_poll W key) - sint t \<le> ns 20
          \<longrightarrow> (key, t) \<in> set (polls (m_watches c'))"
    unfolding ws by auto
  have stamp: "m_lastGarbageCollection c' =
       (if ns 5 < sint (now_gc W) - sint (m_lastGarbageCollection c) then now_done W
        else m_lastGarbageCollection c)"
    using doWork_stamp [OF assms(1)] by (simp add: due)
  have "\<forall>Ws. (\<forall>W' \<in> set Ws. after_epoch (now_gc W') \<and> sint (now_gc W') \<le> sint (now_done W'))
          \<longrightarrow> sorted_wrt (\<lambda>a b. ns 5 < sint b - sint a) (gc_runs Ws c)"
    using gc_runs_spaced [OF _ assms(4)] by blast
  with ws kept stamp show ?thesis by blast
qed

text \<open>
  The clock reads 25 s and the last collection was at 0: of the watches last polled at 0,
  never, and at 10 s, the first is removed. Of passes at 25 s, 27 s and 31 s, the first
  and the third collect.
\<close>

theorem watch_garbage_collection_witness:
  "\<exists>c'. doWork (world_at 25) client1 = Inr c'
     \<and> polls (m_watches c') = [(2, time_point_max), (3, seconds 10)]
     \<and> m_lastGarbageCollection c' = seconds 25
     \<and> gc_runs [world_at 25, world_at 27, world_at 31] client1 = [seconds 25, seconds 31]
     \<and> sorted_wrt (\<lambda>a b. ns 5 < sint b - sint a)
         (gc_runs [world_at 25, world_at 27, world_at 31] client1)"
proof -
  obtain c' where pass: "doWork (world_at 25) client1 = Inr c'"
    using doWork_returns [of "world_at 25" client1] by (auto simp: world_at_quiet)
  have keys: "distinct (map fst (m_watches client1))"
    by (simp add: client1_def)
  have e1: "after_epoch (now_gc (world_at 25))"
    by (simp add: world_at_clock after_epoch_def seconds_def ns_def)
  have e2: "after_epoch (m_lastGarbageCollection client1)"
    by (simp add: client1_def after_epoch_def)
  have e3: "\<forall>(key, t) \<in> set (polls (m_watches client1)).
      after_epoch t \<and> after_epoch (now_poll (world_at 25) key)"
    by (simp add: client1_def polls_def world_at_clock after_epoch_def seconds_def ns_def
        time_point_max_def)
  note gc = watch_garbage_collection [OF pass keys e1 e2 e3]
  from gc have "polls (m_watches c') = [(2, time_point_max), (3, seconds 10)]
     \<and> m_lastGarbageCollection c' = seconds 25"
    by (simp add: client1_def world_at_clock polls_def seconds_def ns_def time_point_max_def)
  moreover
  have "\<forall>W' \<in> set [world_at 25, world_at 27, world_at 31].
      after_epoch (now_gc W') \<and> sint (now_gc W') \<le> sint (now_done W')"
    by (simp add: world_at_clock after_epoch_def seconds_def ns_def)
  with gc have "sorted_wrt (\<lambda>a b. ns 5 < sint b - sint a)
         (gc_runs [world_at 25, world_at 27, world_at 31] client1)"
    by blast
  ultimately show ?thesis
    using pass gc_runs_example by blast
qed

end
